theory Spec2Isabelle
  imports Complex_Main "HOL-Library.Code_Target_Nat"
begin

section \<open>Blog sitemap generator: scripts/generate-blog-sitemap.js\<close>

text \<open>
  The script is one linear pipeline: fetch the posts from the WordPress REST API (page by
  page), fall back to the RSS feed, fetch the categories, render the sitemap and write it.
  Everything the script obtains from outside (HTTP responses, the clock, the date parser of
  the runtime) is an explicit argument of the functions below; everything it does to the
  outside (the file it writes, the lines it logs, the value it returns) is part of their
  result.
\<close>

subsection \<open>JavaScript numbers and strings\<close>

text \<open>
  The values \<open>Number(...)\<close> can produce. Finite doubles are read as rationals; the
  three special values are kept apart because the script tests for them.
\<close>

datatype jsnum = NaN | Fin rat | PosInf | NegInf

text \<open>\<open>a <= b\<close> and \<open>a < b\<close> on numbers: every comparison with \<open>NaN\<close> is false.\<close>

fun js_le :: "jsnum \<Rightarrow> jsnum \<Rightarrow> bool" where
  "js_le NaN _ = False"
| "js_le _ NaN = False"
| "js_le NegInf _ = True"
| "js_le _ PosInf = True"
| "js_le (Fin a) (Fin b) = (a \<le> b)"
| "js_le (Fin a) NegInf = False"
| "js_le PosInf (Fin b) = False"
| "js_le PosInf NegInf = False"

fun js_lt :: "jsnum \<Rightarrow> jsnum \<Rightarrow> bool" where
  "js_lt NaN _ = False"
| "js_lt _ NaN = False"
| "js_lt PosInf _ = False"
| "js_lt _ NegInf = False"
| "js_lt (Fin a) (Fin b) = (a < b)"
| "js_lt (Fin a) PosInf = True"
| "js_lt NegInf (Fin b) = True"
| "js_lt NegInf PosInf = True"

definition isNaN :: "jsnum \<Rightarrow> bool" where
  "isNaN x = (x = NaN)"

fun isFinite :: "jsnum \<Rightarrow> bool" where
  "isFinite (Fin _) = True"
| "isFinite _ = False"

text \<open>\<open>a || b\<close> on strings: the empty string is falsy.\<close>

definition js_or :: "string \<Rightarrow> string \<Rightarrow> string" where
  "js_or a b = (if a = [] then b else a)"

definition nl :: string where
  "nl = [CHR 0x0A]"

subsection \<open>Configuration\<close>

text \<open>
  \<open>BASE_URL\<close> is the resolved constant of the script;
  \<open>requestedBlogLimit\<close> is \<open>Number(process.env.VITE_PRERENDER_BLOG_LIMIT || 100)\<close>.
\<close>

record config =
  BASE_URL :: string
  requestedBlogLimit :: jsnum

text \<open>
  \<open>BLOG_LIMIT = Number.isFinite(requestedBlogLimit) && requestedBlogLimit > 0
     ? requestedBlogLimit : 100\<close>.
  The result is always a finite number, so it is given as a rational.
\<close>

definition BLOG_LIMIT :: "config \<Rightarrow> rat" where
  "BLOG_LIMIT cfg =
     (if isFinite (requestedBlogLimit cfg) \<and> js_lt (Fin 0) (requestedBlogLimit cfg)
      then (case requestedBlogLimit cfg of Fin q \<Rightarrow> q | _ \<Rightarrow> 100)
      else 100)"

text \<open>
  \<open>xs.slice(0, BLOG_LIMIT)\<close>: the end index is truncated to an integer
  (\<open>BLOG_LIMIT\<close> is positive, so truncation is the floor).
\<close>

definition slice_limit :: "config \<Rightarrow> 'a list \<Rightarrow> 'a list" where
  "slice_limit cfg xs = take (nat \<lfloor>BLOG_LIMIT cfg\<rfloor>) xs"

subsection \<open>Data\<close>

text \<open>
  A term of \<open>_embedded['wp:term']\<close>, a post and a category, with the fields the script
  reads or writes. \<open>link\<close> and \<open>modified\<close> are \<open>None\<close> where the JavaScript object has
  \<open>undefined\<close>; \<open>embedded\<close> is the value of \<open>_embedded?.['wp:term']\<close>.
\<close>

record wp_term =
  term_slug :: string
  taxonomy :: string

record post =
  slug :: string
  link :: "string option"
  date :: "string option"
  modified :: "string option"
  embedded :: "wp_term list list option"

record category =
  cat_slug :: string
  cat_count :: int

text \<open>
  JavaScript errors by the place that throws them.
  \<open>FetchRejected\<close>: the transport rejects; \<open>JsonRejected\<close>: \<open>response.json()\<close> rejects;
  \<open>WordPressAPI status statusText body\<close>: thrown by \<open>fetchJson\<close>;
  \<open>RssReturned status statusText\<close> and \<open>RssNoPosts\<close>: thrown by \<open>fetchPostsFromRss\<close>;
  \<open>InvalidTimeValue\<close>: the RangeError of \<open>toISOString\<close> on an invalid date;
  \<open>CallStackExceeded\<close> and \<open>InvalidArrayLength\<close>: the RangeErrors of
  \<open>posts.push(...data)\<close>;
  \<open>NoPostsReturned apiError\<close>: thrown by \<open>writeBlogSitemap\<close>;
  \<open>FsError call\<close>: thrown by the named call of \<open>node:fs\<close>.
\<close>

datatype error =
    FetchRejected string
  | JsonRejected
  | WordPressAPI nat string string
  | RssReturned nat string
  | RssNoPosts
  | InvalidTimeValue
  | CallStackExceeded
  | InvalidArrayLength
  | NoPostsReturned "error option"
  | FsError string

text \<open>
  An HTTP response: \<open>json\<close> is what \<open>response.json()\<close> resolves to (\<open>None\<close> when it
  rejects), \<open>totalPagesHeader\<close> is \<open>Number\<close> of the \<open>X-WP-TotalPages\<close> header when the
  header is there, and \<open>None\<close> when \<open>headers.get\<close> returns \<open>null\<close>.
\<close>

record 'a response =
  ok :: bool
  status :: nat
  statusText :: string
  body :: string
  json :: "'a option"
  totalPagesHeader :: "jsnum option"

subsection \<open>The runtime\<close>

text \<open>
  What the script takes from the JavaScript engine and the clock.
  \<open>now_iso\<close> is \<open>new Date().toISOString()\<close>, taken as one instant for the whole run;
  \<open>date_iso s\<close> is \<open>new Date(s).toISOString()\<close>, which throws a RangeError (\<open>None\<close>) when
  \<open>s\<close> does not parse as a date; \<open>max_spread\<close> is the largest number of elements
  a spread call \<open>f(...xs)\<close> accepts, beyond which the engine throws a RangeError.
\<close>

record runtime =
  now_iso :: string
  date_iso :: "string \<Rightarrow> string option"
  max_spread :: nat

subsection \<open>fetchJson\<close>

text \<open>
  The argument is the outcome of \<open>fetch(apiUrl, ...)\<close>. A response that is not \<open>ok\<close>
  throws with the status, the status text and the first 200 characters of the body.
\<close>

definition fetchJson :: "error + 'a response \<Rightarrow> error + ('a \<times> 'a response)" where
  "fetchJson fetched =
     (case fetched of
        Inl e \<Rightarrow> Inl e
      | Inr response \<Rightarrow>
          if \<not> ok response
          then Inl (WordPressAPI (status response) (statusText response) (take 200 (body response)))
          else (case json response of
                  None \<Rightarrow> Inl JsonRejected
                | Some data \<Rightarrow> Inr (data, response)))"

subsection \<open>fetchAllPosts\<close>

text \<open>
  The three variables of the loop. \<open>page\<close> is a JavaScript number that only ever holds
  the integers from 1 to \<open>2^53\<close>.
\<close>

record loop_state =
  posts :: "post list"
  page :: nat
  totalPages :: jsnum

text \<open>
  \<open>Number(response.headers.get('X-WP-TotalPages'))\<close>: a missing header is \<open>null\<close>, and
  \<open>Number(null)\<close> is 0.
\<close>

definition headerPages :: "'a response \<Rightarrow> jsnum" where
  "headerPages response =
     (case totalPagesHeader response of None \<Rightarrow> Fin 0 | Some n \<Rightarrow> n)"

text \<open>
  \<open>n += 1\<close> on a double that holds an integer: exact below \<open>2^53 = 9007199254740992\<close>;
  at \<open>2^53\<close> the sum \<open>2^53 + 1\<close> is not a double and rounds back to \<open>2^53\<close>.
\<close>

definition js_succ :: "nat \<Rightarrow> nat" where
  "js_succ n = (if n < 9007199254740992 then n + 1 else n)"

text \<open>
  \<open>xs.push(...data)\<close>: the spread throws when \<open>data\<close> has more elements than a call
  accepts, and \<open>push\<close> throws when the array would become longer than
  \<open>2^32 - 1 = 4294967295\<close>.
  Running out of memory is not modelled.
\<close>

definition push_spread :: "runtime \<Rightarrow> 'a list \<Rightarrow> 'a list \<Rightarrow> error + 'a list" where
  "push_spread rt xs data =
     (if max_spread rt < length data then Inl CallStackExceeded
      else if 4294967295 < length xs + length data then Inl InvalidArrayLength
      else Inr (xs @ data))"

text \<open>
  The body of the loop after a successful \<open>fetchJson\<close>: push the data, take over the
  header when it is a number greater than 0, advance the page.
\<close>

definition loop_body ::
  "runtime \<Rightarrow> loop_state \<Rightarrow> post list \<Rightarrow> post list response \<Rightarrow> error + loop_state"
where
  "loop_body rt s data response =
     (case push_spread rt (posts s) data of
        Inl e \<Rightarrow> Inl e
      | Inr pushed \<Rightarrow>
          Inr \<lparr>posts = pushed,
               page = js_succ (page s),
               totalPages =
                 (if \<not> isNaN (headerPages response) \<and> js_lt (Fin 0) (headerPages response)
                  then headerPages response else totalPages s)\<rparr>)"

definition loop_cond :: "config \<Rightarrow> loop_state \<Rightarrow> bool" where
  "loop_cond cfg s =
     (js_le (Fin (of_nat (page s))) (totalPages s) \<and> of_nat (length (posts s)) < BLOG_LIMIT cfg)"

text \<open>
  The \<open>while\<close> loop. \<open>api k\<close> is the outcome of the \<open>k\<close>-th request of the run, whatever
  page it asks for, so that \<open>api\<close> stands for an arbitrary sequence of responses; \<open>n\<close> is
  the number of requests made so far. The loop need not end, hence the option: \<open>None\<close>
  is a run that never returns; otherwise the result is the number of requests that were
  made, with the error thrown by \<open>fetchJson\<close> or by \<open>push\<close>, or with the state at the
  exit of the loop.
\<close>

partial_function (option) fetch_loop ::
  "config \<Rightarrow> runtime \<Rightarrow> (nat \<Rightarrow> error + post list response) \<Rightarrow> nat \<Rightarrow> loop_state
     \<Rightarrow> (nat \<times> (error + loop_state)) option"
where
  "fetch_loop cfg rt api n s =
     (if loop_cond cfg s
      then (case fetchJson (api (Suc n)) of
              Inl e \<Rightarrow> Some (Suc n, Inl e)
            | Inr (data, response) \<Rightarrow>
                (case loop_body rt s data response of
                   Inl e \<Rightarrow> Some (Suc n, Inl e)
                 | Inr s' \<Rightarrow> fetch_loop cfg rt api (Suc n) s'))
      else Some (n, Inr s))"

definition loop_init :: loop_state where
  "loop_init = \<lparr>posts = [], page = 1, totalPages = Fin 1\<rparr>"

definition fetchAllPosts ::
  "config \<Rightarrow> runtime \<Rightarrow> (nat \<Rightarrow> error + post list response) \<Rightarrow> (error + post list) option"
where
  "fetchAllPosts cfg rt api =
     (case fetch_loop cfg rt api 0 loop_init of
        None \<Rightarrow> None
      | Some (n, Inl e) \<Rightarrow> Some (Inl e)
      | Some (n, Inr s) \<Rightarrow> Some (Inr (slice_limit cfg (posts s))))"

subsection \<open>Strings: \<open>split\<close>, \<open>join\<close> and the two regular expressions\<close>

text \<open>
  \<open>text.split(sep)\<close> for a string separator: the occurrences of \<open>sep\<close> are found from
  left to right without overlap, and the pieces between them are returned. The result
  always has at least one piece when \<open>sep\<close> is not empty.
\<close>

fun split_js :: "string \<Rightarrow> string \<Rightarrow> string list" where
  "split_js [] text = map (\<lambda>c. [c]) text"
| "split_js (p # ps) [] = [[]]"
| "split_js (p # ps) (c # cs) =
     (if take (length (p # ps)) (c # cs) = p # ps
      then [] # split_js (p # ps) (drop (length ps) cs)
      else (case split_js (p # ps) cs of
              [] \<Rightarrow> [[c]]
            | piece # pieces \<Rightarrow> (c # piece) # pieces))"

text \<open>\<open>xs.join(sep)\<close>.\<close>

fun join :: "string \<Rightarrow> string list \<Rightarrow> string" where
  "join sep [] = []"
| "join sep [x] = x"
| "join sep (x # y # ys) = x @ sep @ join sep (y # ys)"

text \<open>\<open>xs.filter(Boolean)\<close> on strings drops the empty ones; \<open>xs.pop()\<close> is the last element.\<close>

definition filter_Boolean :: "string list \<Rightarrow> string list" where
  "filter_Boolean xs = filter (\<lambda>x. x \<noteq> []) xs"

definition pop :: "'a list \<Rightarrow> 'a option" where
  "pop xs = (if xs = [] then None else Some (last xs))"

text \<open>\<open>xs[i]\<close> for an index that may be negative or past the end: \<open>undefined\<close> there.\<close>

definition at_index :: "'a list \<Rightarrow> int \<Rightarrow> 'a option" where
  "at_index xs i = (if 0 \<le> i \<and> i < int (length xs) then Some (xs ! nat i) else None)"

text \<open>
  The flag \<open>i\<close> of a regular expression compares characters after mapping them to upper
  case; only the ASCII letters matter for the two patterns of the script.
\<close>

definition canonicalize :: "char \<Rightarrow> char" where
  "canonicalize c =
     (let n = (of_char c :: nat) in if 97 \<le> n \<and> n \<le> 122 then char_of (n - 32) else c)"

fun ci_starts_with :: "string \<Rightarrow> string \<Rightarrow> bool" where
  "ci_starts_with [] text = True"
| "ci_starts_with (p # ps) [] = False"
| "ci_starts_with (p # ps) (c # cs) = (canonicalize p = canonicalize c \<and> ci_starts_with ps cs)"

text \<open>
  A match of \<open>/<tag>([^<]+)<\/tag>/i\<close> that starts at the head of the text: the opening
  tag, then the longest run of characters other than \<open><\<close> (it must not be empty, and
  since the closing tag starts with \<open><\<close> no shorter run can match), then the closing
  tag. The result is the captured group.
\<close>

definition match_here :: "string \<Rightarrow> string \<Rightarrow> string \<Rightarrow> string option" where
  "match_here opening closing text =
     (if ci_starts_with opening text
      then (let rest = drop (length opening) text;
                captured = takeWhile (\<lambda>c. c \<noteq> CHR ''<'') rest
            in if captured \<noteq> [] \<and> ci_starts_with closing (drop (length captured) rest)
               then Some captured else None)
      else None)"

text \<open>\<open>text.match(...)\<close> without the flag \<open>g\<close>: the leftmost match.\<close>

fun match_first :: "string \<Rightarrow> string \<Rightarrow> string \<Rightarrow> string option" where
  "match_first opening closing [] = match_here opening closing []"
| "match_first opening closing (c # cs) =
     (case match_here opening closing (c # cs) of
        Some captured \<Rightarrow> Some captured
      | None \<Rightarrow> match_first opening closing cs)"

definition linkMatch :: "string \<Rightarrow> string option" where
  "linkMatch item = match_first ''<link>'' ''</link>'' item"

definition dateMatch :: "string \<Rightarrow> string option" where
  "dateMatch item = match_first ''<pubDate>'' ''</pubDate>'' item"

subsection \<open>Dates\<close>

text \<open>
  \<open>stamp.split('T')[0]\<close>. The result of \<open>split\<close> has a first element; the other case
  only makes the definition total.
\<close>

definition date_part :: "string \<Rightarrow> string" where
  "date_part stamp = (case split_js ''T'' stamp of [] \<Rightarrow> ''undefined'' | d # _ \<Rightarrow> d)"

subsection \<open>fetchPostsFromRss\<close>

text \<open>The two derived names of an item, as the callback of \<open>items.map\<close> computes them.\<close>

definition rss_slug :: "string option \<Rightarrow> string" where
  "rss_slug lm =
     (case lm of
        None \<Rightarrow> []
      | Some l \<Rightarrow> (case pop (filter_Boolean (split_js ''/'' l)) of
                     None \<Rightarrow> []
                   | Some s \<Rightarrow> js_or s []))"

definition rss_categorySlug :: "string option \<Rightarrow> string" where
  "rss_categorySlug lm =
     (case lm of
        None \<Rightarrow> ''blog''
      | Some l \<Rightarrow>
          (let categorySlugMatch = filter_Boolean (split_js ''/'' l)
           in case at_index categorySlugMatch (int (length categorySlugMatch) - 2) of
                None \<Rightarrow> ''blog''
              | Some s \<Rightarrow> js_or s ''blog''))"

text \<open>The callback itself: it throws when the \<open>pubDate\<close> of the item is not a date.\<close>

definition rss_post :: "runtime \<Rightarrow> string \<Rightarrow> error + post" where
  "rss_post rt item =
     (let lm = linkMatch item; dm = dateMatch item
      in case (case dm of Some d \<Rightarrow> date_iso rt d | None \<Rightarrow> Some (now_iso rt)) of
           None \<Rightarrow> Inl InvalidTimeValue
         | Some stamp \<Rightarrow>
             Inr \<lparr>slug = rss_slug lm,
                  link = lm,
                  date = Some stamp,
                  modified = None,
                  embedded = Some [[\<lparr>term_slug = rss_categorySlug lm, taxonomy = ''category''\<rparr>]]\<rparr>)"

text \<open>\<open>xs.map(f)\<close> for a callback that may throw: the first throw ends the map.\<close>

fun map_throwing :: "('a \<Rightarrow> error + 'b) \<Rightarrow> 'a list \<Rightarrow> error + 'b list" where
  "map_throwing f [] = Inr []"
| "map_throwing f (x # xs) =
     (case f x of
        Inl e \<Rightarrow> Inl e
      | Inr y \<Rightarrow> (case map_throwing f xs of Inl e \<Rightarrow> Inl e | Inr ys \<Rightarrow> Inr (y # ys)))"

definition rss_items :: "string \<Rightarrow> string list" where
  "rss_items xml = map (\<lambda>chunk. ''<item>'' @ chunk) (drop 1 (split_js ''<item>'' xml))"

text \<open>\<open>p.slug && p.link\<close>\<close>

definition has_slug_and_link :: "post \<Rightarrow> bool" where
  "has_slug_and_link p = (slug p \<noteq> [] \<and> (case link p of None \<Rightarrow> False | Some l \<Rightarrow> l \<noteq> []))"

text \<open>The body of the \<open>try\<close> block; the argument \<open>fetched\<close> is the outcome of the request.\<close>

definition rss_try :: "config \<Rightarrow> runtime \<Rightarrow> error + unit response \<Rightarrow> error + post list" where
  "rss_try cfg rt fetched =
     (case fetched of
        Inl e \<Rightarrow> Inl e
      | Inr response \<Rightarrow>
          if \<not> ok response
          then Inl (RssReturned (status response) (statusText response))
          else (case map_throwing (rss_post rt) (rss_items (body response)) of
                  Inl e \<Rightarrow> Inl e
                | Inr ps \<Rightarrow>
                    (let sanitized = filter has_slug_and_link ps
                     in if length sanitized = 0 then Inl RssNoPosts
                        else Inr (slice_limit cfg sanitized))))"

text \<open>What the script prints, one constructor for each call of \<open>console\<close>.\<close>

datatype log_line =
    FetchingPosts
  | ApiFetchFailed error
  | TryingRssFallback
  | RssFallbackFailed error
  | CategoriesFetchFailed error
  | Generated nat nat nat bool
  | FailedToGenerate error
  | ContinuingWithoutSitemap
  | CreatedEmptySitemap

text \<open>The whole function: the \<open>catch\<close> turns every error into a warning and \<open>[]\<close>.\<close>

definition fetchPostsFromRss ::
  "config \<Rightarrow> runtime \<Rightarrow> error + unit response \<Rightarrow> log_line list \<times> post list"
where
  "fetchPostsFromRss cfg rt fetched =
     (case rss_try cfg rt fetched of
        Inl e \<Rightarrow> ([RssFallbackFailed e], [])
      | Inr ps \<Rightarrow> ([], ps))"

subsection \<open>fetchCategories\<close>

definition fetchCategories ::
  "error + category list response \<Rightarrow> log_line list \<times> category list"
where
  "fetchCategories fetched =
     (case fetchJson fetched of
        Inl e \<Rightarrow> ([CategoriesFetchFailed e], [])
      | Inr (data, response) \<Rightarrow> ([], data))"

subsection \<open>writeBlogSitemap\<close>

text \<open>
  The three sources of a run. \<open>posts_api k\<close> is the outcome of the \<open>k\<close>-th request for
  posts.
\<close>

record sources =
  posts_api :: "nat \<Rightarrow> error + post list response"
  feed :: "error + unit response"
  categories_api :: "error + category list response"

text \<open>
  The part of the file system the script touches: whether the directory \<open>dist\<close> exists
  and what the file \<open>dist/sitemap-blog.xml\<close> holds. Which calls of \<open>node:fs\<close> the
  system refuses is given apart: \<open>mkdir_fails\<close> for \<open>fs.mkdirSync\<close>, \<open>write_fails content\<close>
  for \<open>fs.writeFileSync\<close> of that content (a large file may not fit where a small one
  does), \<open>stat_fails\<close> for \<open>fs.statSync\<close>. \<open>fs.existsSync\<close> never throws.
\<close>

record files =
  dist_exists :: bool
  sitemap_blog_xml :: "string option"

record disk =
  mkdir_fails :: bool
  write_fails :: "string \<Rightarrow> bool"
  stat_fails :: bool

text \<open>What a run that returns leaves behind: the files, the returned boolean and the console.\<close>

record outcome =
  written :: files
  returned :: bool
  console :: "log_line list"

text \<open>\<open>if (!fs.existsSync(distPath)) fs.mkdirSync(distPath, { recursive: true })\<close>\<close>

definition ensure_dist :: "disk \<Rightarrow> files \<Rightarrow> error + files" where
  "ensure_dist d fs =
     (if \<not> dist_exists fs
      then (if mkdir_fails d then Inl (FsError ''mkdirSync'') else Inr (fs\<lparr>dist_exists := True\<rparr>))
      else Inr fs)"

text \<open>
  \<open>fs.writeFileSync(outputPath, content, 'utf-8')\<close>. What a refused write leaves in the
  file is not modelled: the script either overwrites the file afterwards or throws.
\<close>

definition writeFileSync :: "disk \<Rightarrow> string \<Rightarrow> files \<Rightarrow> error + files" where
  "writeFileSync d content fs =
     (if write_fails d content then Inl (FsError ''writeFileSync'')
      else Inr (fs\<lparr>sitemap_blog_xml := Some content\<rparr>))"

text \<open>\<open>fs.statSync(outputPath).size\<close>\<close>

definition statSync_size :: "disk \<Rightarrow> files \<Rightarrow> error + nat" where
  "statSync_size d fs =
     (case sitemap_blog_xml fs of
        None \<Rightarrow> Inl (FsError ''statSync'')
      | Some content \<Rightarrow> if stat_fails d then Inl (FsError ''statSync'') else Inr (length content))"

text \<open>One \<open><url>\<close> block, as both template literals of the script lay it out.\<close>

definition url_block :: "string \<Rightarrow> string \<Rightarrow> string \<Rightarrow> string \<Rightarrow> string" where
  "url_block loc lastmod changefreq priority =
     ''  <url>'' @ nl @
     ''    <loc>'' @ loc @ ''</loc>'' @ nl @
     ''    <lastmod>'' @ lastmod @ ''</lastmod>'' @ nl @
     ''    <changefreq>'' @ changefreq @ ''</changefreq>'' @ nl @
     ''    <priority>'' @ priority @ ''</priority>'' @ nl @
     ''  </url>''"

definition category_url :: "config \<Rightarrow> runtime \<Rightarrow> category \<Rightarrow> string" where
  "category_url cfg rt c =
     url_block (BASE_URL cfg @ ''/blog/'' @ cat_slug c) (date_part (now_iso rt)) ''weekly'' ''0.7''"

text \<open>\<open>categories.forEach(...)\<close> inside \<open>if (categories.length > 0)\<close>.\<close>

fun push_categories :: "config \<Rightarrow> runtime \<Rightarrow> string list \<Rightarrow> category list \<Rightarrow> string list" where
  "push_categories cfg rt urls [] = urls"
| "push_categories cfg rt urls (c # cs) =
     push_categories cfg rt (if cat_count c > 0 then urls @ [category_url cfg rt c] else urls) cs"

definition add_category_pages :: "config \<Rightarrow> runtime \<Rightarrow> string list \<Rightarrow> category list \<Rightarrow> string list" where
  "add_category_pages cfg rt urls categories =
     (if length categories > 0 then push_categories cfg rt urls categories else urls)"

text \<open>\<open>post._embedded?.['wp:term']?.[0]?.[0]\<close>\<close>

definition first_term :: "post \<Rightarrow> wp_term option" where
  "first_term p =
     (case embedded p of
        None \<Rightarrow> None
      | Some terms \<Rightarrow>
          (case terms of
             [] \<Rightarrow> None
           | ts # _ \<Rightarrow> (case ts of [] \<Rightarrow> None | t # _ \<Rightarrow> Some t)))"

definition post_categorySlug :: "post \<Rightarrow> string" where
  "post_categorySlug p =
     (case first_term p of None \<Rightarrow> ''blog'' | Some t \<Rightarrow> js_or (term_slug t) ''blog'')"

text \<open>
  \<open>post.modified ? new Date(post.modified).toISOString().split('T')[0]
                 : new Date().toISOString().split('T')[0]\<close>
\<close>

definition post_lastmod :: "runtime \<Rightarrow> post \<Rightarrow> error + string" where
  "post_lastmod rt p =
     (case modified p of
        None \<Rightarrow> Inr (date_part (now_iso rt))
      | Some m \<Rightarrow>
          if m = [] then Inr (date_part (now_iso rt))
          else (case date_iso rt m of
                  None \<Rightarrow> Inl InvalidTimeValue
                | Some stamp \<Rightarrow> Inr (date_part stamp)))"

definition post_url :: "config \<Rightarrow> runtime \<Rightarrow> post \<Rightarrow> error + string" where
  "post_url cfg rt p =
     (case post_lastmod rt p of
        Inl e \<Rightarrow> Inl e
      | Inr lastmod \<Rightarrow>
          Inr (url_block (BASE_URL cfg @ ''/'' @ post_categorySlug p @ ''/'' @ slug p)
                 lastmod ''monthly'' ''0.6''))"

text \<open>\<open>posts.forEach(...)\<close>: a throw in the callback ends the loop.\<close>

fun push_posts :: "config \<Rightarrow> runtime \<Rightarrow> string list \<Rightarrow> post list \<Rightarrow> error + string list" where
  "push_posts cfg rt urls [] = Inr urls"
| "push_posts cfg rt urls (p # ps) =
     (case post_url cfg rt p of
        Inl e \<Rightarrow> Inl e
      | Inr u \<Rightarrow> push_posts cfg rt (urls @ [u]) ps)"

text \<open>The entries of the sitemap: \<open>urls\<close> after both loops.\<close>

definition sitemap_urls :: "config \<Rightarrow> runtime \<Rightarrow> category list \<Rightarrow> post list \<Rightarrow> error + string list" where
  "sitemap_urls cfg rt categories ps =
     push_posts cfg rt (add_category_pages cfg rt [] categories) ps"

definition xml_declaration :: string where
  "xml_declaration = ''<?xml version='' @ [CHR 0x22] @ ''1.0'' @ [CHR 0x22] @
     '' encoding='' @ [CHR 0x22] @ ''UTF-8'' @ [CHR 0x22] @ ''?>''"

definition urlset_open :: string where
  "urlset_open = ''<urlset xmlns='' @ [CHR 0x22] @
     ''http://www.sitemaps.org/schemas/sitemap/0.9'' @ [CHR 0x22] @ ''>''"

definition sitemap_of :: "string list \<Rightarrow> string" where
  "sitemap_of urls =
     xml_declaration @ nl @ urlset_open @ nl @ join nl urls @ nl @ ''</urlset>''"

definition emptySitemap :: string where
  "emptySitemap = xml_declaration @ nl @ urlset_open @ nl @ ''</urlset>''"

text \<open>
  The first part of the \<open>try\<close> block: the primary fetch with its own \<open>try\<close>, then the
  fallback when there are no posts. The result is \<open>posts\<close>, \<open>apiError\<close>, \<open>viaFallback\<close>
  and the lines printed so far.
\<close>

definition gather_posts ::
  "config \<Rightarrow> runtime \<Rightarrow> error + post list \<Rightarrow> error + unit response
     \<Rightarrow> post list \<times> error option \<times> bool \<times> log_line list"
where
  "gather_posts cfg rt primary fetched_feed =
     (let (ps, apiError, lines) =
            (case primary of
               Inl e \<Rightarrow> ([], Some e, [FetchingPosts, ApiFetchFailed e])
             | Inr fetched \<Rightarrow> (fetched, None, [FetchingPosts]))
      in if length ps = 0
         then (let (warned, from_rss) = fetchPostsFromRss cfg rt fetched_feed
               in (from_rss, apiError, length from_rss > 0, lines @ [TryingRssFallback] @ warned))
         else (ps, apiError, False, lines))"

text \<open>
  The rest of the \<open>try\<close> block up to the sitemap text: it throws when there are no posts
  and when a post has a modification date that does not parse.
\<close>

definition build_sitemap ::
  "config \<Rightarrow> runtime \<Rightarrow> category list \<Rightarrow> post list \<Rightarrow> error option \<Rightarrow> error + string"
where
  "build_sitemap cfg rt categories ps apiError =
     (if length ps = 0 then Inl (NoPostsReturned apiError)
      else (case sitemap_urls cfg rt categories ps of
              Inl e \<Rightarrow> Inl e
            | Inr urls \<Rightarrow> Inr (sitemap_of urls)))"

text \<open>
  The end of the \<open>try\<close> block: create the directory, write the sitemap, read its size.
  A call that throws leaves the \<open>try\<close> block with the error and the files as they are
  at that moment; otherwise the result is the files and the size.
\<close>

definition save_sitemap :: "disk \<Rightarrow> string \<Rightarrow> files \<Rightarrow> (error \<times> files) + (files \<times> nat)" where
  "save_sitemap d sitemap fs =
     (case ensure_dist d fs of
        Inl e \<Rightarrow> Inl (e, fs)
      | Inr fs1 \<Rightarrow>
          (case writeFileSync d sitemap fs1 of
             Inl e \<Rightarrow> Inl (e, fs1)
           | Inr fs2 \<Rightarrow>
               (case statSync_size d fs2 of
                  Inl e \<Rightarrow> Inl (e, fs2)
                | Inr bytes \<Rightarrow> Inr (fs2, bytes))))"

text \<open>
  The file-system calls of the \<open>catch\<close> block: create the directory, write the empty
  sitemap. Nothing catches what they throw.
\<close>

definition save_emptySitemap :: "disk \<Rightarrow> files \<Rightarrow> error + files" where
  "save_emptySitemap d fs =
     (case ensure_dist d fs of
        Inl e \<Rightarrow> Inl e
      | Inr fs1 \<Rightarrow> writeFileSync d emptySitemap fs1)"

text \<open>
  The exported function. \<open>None\<close> is a run in which the pagination loop never ends and
  \<open>Some (Inl e)\<close> a run in which the \<open>catch\<close> block throws \<open>e\<close>, so that the function
  throws. Otherwise the \<open>try\<close> block either writes the rendered sitemap and returns
  \<open>true\<close>, or the \<open>catch\<close> block writes the empty sitemap and returns \<open>false\<close>.
\<close>

definition writeBlogSitemap ::
  "config \<Rightarrow> runtime \<Rightarrow> sources \<Rightarrow> disk \<Rightarrow> files \<Rightarrow> (error + outcome) option"
where
  "writeBlogSitemap cfg rt src d fs =
     (case fetchAllPosts cfg rt (posts_api src) of
        None \<Rightarrow> None
      | Some primary \<Rightarrow>
          Some
            (let (ps, apiError, viaFallback, lines) = gather_posts cfg rt primary (feed src);
                 (warned, categories) = fetchCategories (categories_api src)
             in case (case build_sitemap cfg rt categories ps apiError of
                        Inl e \<Rightarrow> Inl (e, fs)
                      | Inr sitemap \<Rightarrow> save_sitemap d sitemap fs) of
                  Inr (fs', bytes) \<Rightarrow>
                    Inr \<lparr>written = fs',
                         returned = True,
                         console = lines @ warned @
                           [Generated (length categories) (length ps) bytes viaFallback]\<rparr>
                | Inl (e, fs') \<Rightarrow>
                    (case save_emptySitemap d fs' of
                       Inl e' \<Rightarrow> Inl e'
                     | Inr fs'' \<Rightarrow>
                         Inr \<lparr>written = fs'',
                              returned = False,
                              console = lines @ warned @
                                [FailedToGenerate e, ContinuingWithoutSitemap,
                                 CreatedEmptySitemap]\<rparr>)))"

text \<open>The number of places of a text at which \<open>pat\<close> starts.\<close>

fun occurrences :: "string \<Rightarrow> string \<Rightarrow> nat" where
  "occurrences pat [] = (if pat = [] then 1 else 0)"
| "occurrences pat (c # cs) =
     (if take (length pat) (c # cs) = pat then 1 else 0) + occurrences pat cs"

subsection \<open>Example inputs\<close>

text \<open>
  The example of the specification: one post \<open>hello-world\<close> in the category \<open>news\<close>,
  modified on 2024-01-15, and the base URL \<open>https://example.com\<close>. The limit of the
  example configuration is two posts.
\<close>

definition example_config :: config where
  "example_config = \<lparr>BASE_URL = ''https://example.com'', requestedBlogLimit = Fin 2\<rparr>"

definition hello_world :: post where
  "hello_world =
     \<lparr>slug = ''hello-world'', link = None, date = None,
      modified = Some ''2024-01-15T00:00:00'',
      embedded = Some [[\<lparr>term_slug = ''news'', taxonomy = ''category''\<rparr>]]\<rparr>"

text \<open>A server that answers every request with a single page of three posts.\<close>

definition three_posts_api :: "nat \<Rightarrow> error + post list response" where
  "three_posts_api k =
     Inr \<lparr>ok = True, status = 200, statusText = ''OK'', body = [],
          json = Some [hello_world, hello_world, hello_world],
          totalPagesHeader = Some (Fin 1)\<rparr>"

text \<open>
  A runtime whose time zone is UTC: its date parser knows the date of the example in two
  notations and rejects every other text. Then a runtime whose time zone is four hours
  ahead of UTC: a date and time without offset is read as local time, so midnight of
  2024-01-15 is 20:00 of the day before in UTC. A post whose modification date is no date,
  and a feed that cannot be reached.
\<close>

definition utc_runtime :: runtime where
  "utc_runtime =
     \<lparr>now_iso = ''2026-11-03T09:30:00.000Z'',
      date_iso = (\<lambda>s. if s = ''2024-01-15T00:00:00'' \<or> s = ''Mon, 15 Jan 2024 00:00:00 +0000''
                       then Some ''2024-01-15T00:00:00.000Z'' else None),
      max_spread = 65535\<rparr>"

definition gulf_runtime :: runtime where
  "gulf_runtime =
     \<lparr>now_iso = ''2026-11-03T09:30:00.000Z'',
      date_iso = (\<lambda>s. if s = ''2024-01-15T00:00:00'' then Some ''2024-01-14T20:00:00.000Z''
                       else None),
      max_spread = 65535\<rparr>"

definition misdated_post :: post where
  "misdated_post =
     \<lparr>slug = ''soon'', link = None, date = None, modified = Some ''soon'', embedded = None\<rparr>"

definition unreachable_feed :: "error + unit response" where
  "unreachable_feed = Inl (FetchRejected ''unreachable'')"

text \<open>
  The configuration of a run without overrides, a server that answers every request with
  an empty list and the header value \<open>Infinity\<close>, and a server that announces five
  pages on the first response and sends no header afterwards.
\<close>

definition default_config :: config where
  "default_config = \<lparr>BASE_URL = ''https://boxentertainment.ae'', requestedBlogLimit = Fin 100\<rparr>"

definition endless_response :: "post list response" where
  "endless_response =
     \<lparr>ok = True, status = 200, statusText = ''OK'', body = ''[]'',
      json = Some [], totalPagesHeader = Some PosInf\<rparr>"

definition endless_api :: "nat \<Rightarrow> error + post list response" where
  "endless_api k = Inr endless_response"

text \<open>
  A server that answers every request with an empty list and announces \<open>10^17\<close> pages,
  more than \<open>2^53\<close>.
\<close>

definition stalling_response :: "post list response" where
  "stalling_response =
     \<lparr>ok = True, status = 200, statusText = ''OK'', body = ''[]'',
      json = Some [], totalPagesHeader = Some (Fin 100000000000000000)\<rparr>"

definition stalling_api :: "nat \<Rightarrow> error + post list response" where
  "stalling_api k = Inr stalling_response"

definition five_pages_response :: "nat \<Rightarrow> post list response" where
  "five_pages_response k =
     \<lparr>ok = True, status = 200, statusText = ''OK'', body = [],
      json = Some [hello_world],
      totalPagesHeader = (if k = 1 then Some (Fin 5) else None)\<rparr>"

definition five_pages_api :: "nat \<Rightarrow> error + post list response" where
  "five_pages_api k = Inr (five_pages_response k)"

text \<open>A server whose only response carries no total-pages header.\<close>

definition no_header_response :: "post list response" where
  "no_header_response =
     \<lparr>ok = True, status = 200, statusText = ''OK'', body = [],
      json = Some [hello_world], totalPagesHeader = None\<rparr>"

definition no_header_api :: "nat \<Rightarrow> error + post list response" where
  "no_header_api k = Inr no_header_response"


definition undated_post :: post where
  "undated_post =
     \<lparr>slug = ''about'', link = None, date = None, modified = None, embedded = None\<rparr>"


definition forbidden_api :: "nat \<Rightarrow> error + post list response" where
  "forbidden_api k =
     Inr \<lparr>ok = False, status = 403, statusText = ''Forbidden'', body = ''blocked'',
          json = None, totalPagesHeader = None\<rparr>"

definition blocked_sources :: sources where
  "blocked_sources =
     \<lparr>posts_api = forbidden_api,
      feed = unreachable_feed,
      categories_api = Inl (FetchRejected ''unreachable'')\<rparr>"

definition no_files :: files where
  "no_files = \<lparr>dist_exists = False, sitemap_blog_xml = None\<rparr>"

text \<open>A file system that refuses nothing, and one that cannot be written to.\<close>

definition working_disk :: disk where
  "working_disk = \<lparr>mkdir_fails = False, write_fails = (\<lambda>content. False), stat_fails = False\<rparr>"

definition readonly_disk :: disk where
  "readonly_disk = \<lparr>mkdir_fails = True, write_fails = (\<lambda>content. True), stat_fails = False\<rparr>"

text \<open>
  Items of a feed: the post of the example, an item whose link is the root path, an item
  that is not in a category directory and an item whose publication date is no date. Then the responses of a feed: unavailable, without items,
  with a broken date, and with the post of the example followed by the root link.
\<close>

definition hello_item :: string where
  "hello_item = ''<item><title>Hello</title><link>https://example.com/news/hello-world/</link>'' @
     ''<pubDate>Mon, 15 Jan 2024 00:00:00 +0000</pubDate></item>''"

definition root_item :: string where
  "root_item = ''<item><title>Home</title><link>/</link></item>''"

definition short_item :: string where
  "short_item = ''<item><link>https://example.com/hello-world/</link></item>''"

definition misdated_item :: string where
  "misdated_item = ''<item><link>https://example.com/news/a/</link><pubDate>yesterday</pubDate></item>''"

definition feed_response :: "bool \<Rightarrow> nat \<Rightarrow> string \<Rightarrow> string \<Rightarrow> unit response" where
  "feed_response is_ok code reason text =
     \<lparr>ok = is_ok, status = code, statusText = reason, body = text,
      json = None, totalPagesHeader = None\<rparr>"

definition unavailable_feed :: "unit response" where
  "unavailable_feed = feed_response False 503 ''Service Unavailable'' []"

definition itemless_feed :: "unit response" where
  "itemless_feed = feed_response True 200 ''OK'' ''<html>not a feed</html>''"

definition misdated_feed :: "unit response" where
  "misdated_feed = feed_response True 200 ''OK'' (''<rss><channel>'' @ misdated_item @ ''</channel></rss>'')"

definition hello_root_feed :: "unit response" where
  "hello_root_feed =
     feed_response True 200 ''OK'' (''<rss><channel>'' @ hello_item @ root_item @ ''</channel></rss>'')"

text \<open>A feed that holds the post of the example twice, and a configuration with a limit of one post.\<close>

definition hello_twice_feed :: "unit response" where
  "hello_twice_feed =
     feed_response True 200 ''OK'' (''<rss><channel>'' @ hello_item @ hello_item @ ''</channel></rss>'')"

definition one_post_config :: config where
  "one_post_config = \<lparr>BASE_URL = ''https://example.com'', requestedBlogLimit = Fin 1\<rparr>"

text \<open>The post \<open>fetchPostsFromRss\<close> builds from the first item.\<close>

definition hello_from_rss :: post where
  "hello_from_rss =
     \<lparr>slug = ''hello-world'', link = Some ''https://example.com/news/hello-world/'',
      date = Some ''2024-01-15T00:00:00.000Z'', modified = None,
      embedded = Some [[\<lparr>term_slug = ''news'', taxonomy = ''category''\<rparr>]]\<rparr>"

text \<open>The post built from the item whose link is the root path.\<close>

definition root_from_rss :: post where
  "root_from_rss =
     \<lparr>slug = [], link = Some ''/'',
      date = Some ''2026-11-03T09:30:00.000Z'', modified = None,
      embedded = Some [[\<lparr>term_slug = ''blog'', taxonomy = ''category''\<rparr>]]\<rparr>"

subsection \<open>Notions used in the statements\<close>

text \<open>
  A value of the total-pages header that cannot raise the total beyond \<open>B\<close>: a finite
  number that is at most \<open>B\<close>, or a value the loop ignores.
\<close>

definition header_at_most :: "rat \<Rightarrow> jsnum \<Rightarrow> bool" where
  "header_at_most B h = (case h of Fin q \<Rightarrow> q \<le> B | PosInf \<Rightarrow> False | _ \<Rightarrow> True)"

text \<open>
  The two conditions on a sequence of responses under which the pagination loop is shown
  to end: the total-pages values of the successful responses are bounded by \<open>B\<close>, or
  each successful response carries at least one post.
\<close>

definition headers_bounded :: "(nat \<Rightarrow> error + post list response) \<Rightarrow> rat \<Rightarrow> bool" where
  "headers_bounded api B =
     (\<forall>p r d. api p = Inr r \<longrightarrow> ok r \<longrightarrow> json r = Some d \<longrightarrow> header_at_most B (headerPages r))"

definition bodies_nonempty :: "(nat \<Rightarrow> error + post list response) \<Rightarrow> bool" where
  "bodies_nonempty api =
     (\<forall>p r d. api p = Inr r \<longrightarrow> ok r \<longrightarrow> json r = Some d \<longrightarrow> d \<noteq> [])"

text \<open>
  The modification date of a post, when the post has one, is a text the date parser of
  the runtime accepts.
\<close>

definition modified_ok :: "runtime \<Rightarrow> post \<Rightarrow> bool" where
  "modified_ok rt p = (case modified p of None \<Rightarrow> True | Some m \<Rightarrow> m = [] \<or> date_iso rt m \<noteq> None)"

text \<open>
  The runtime reads the date \<open>m\<close> as an instant whose day in UTC is the day that \<open>m\<close>
  itself names in its first ten characters \<open>YYYY-MM-DD\<close>.
\<close>

definition keeps_the_day :: "runtime \<Rightarrow> string \<Rightarrow> bool" where
  "keeps_the_day rt m =
     (case date_iso rt m of None \<Rightarrow> False | Some stamp \<Rightarrow> date_part stamp = take 10 m)"

text \<open>
  The segments of a link: the pieces of its text between \<open>/\<close> characters that are not
  empty.
\<close>

definition segments :: "string \<Rightarrow> string list" where
  "segments l = filter (\<lambda>s. s \<noteq> []) (split_js ''/'' l)"

text \<open>
  The path segments of a link in the sense of a URL, following the words of the
  specification: what comes after the scheme and the host is the path, and its pieces
  between \<open>/\<close> characters that are not empty are the path segments. A link without
  scheme is a path.
\<close>

definition url_path :: "string \<Rightarrow> string" where
  "url_path l =
     (case split_js ''://'' l of
        [] \<Rightarrow> l
      | [path] \<Rightarrow> path
      | scheme # rest \<Rightarrow> dropWhile (\<lambda>c. c \<noteq> CHR ''/'') (join ''://'' rest))"

definition url_path_segments :: "string \<Rightarrow> string list" where
  "url_path_segments l = filter (\<lambda>s. s \<noteq> []) (split_js ''/'' (url_path l))"

text \<open>
  Well-formedness of a document, as far as a sitemap needs it: every \<open><\<close> opens a tag
  that a \<open>>\<close> ends; a tag \<open><?...?>\<close> is a declaration; the other tags are properly
  nested, with a closing tag naming the element that is open; there is exactly one
  outermost element, and outside it there is only white space.
\<close>

definition is_space :: "char \<Rightarrow> bool" where
  "is_space c = (c = CHR '' '' \<or> c = CHR 0x0A \<or> c = CHR 0x09 \<or> c = CHR 0x0D)"

definition tag_name :: "string \<Rightarrow> string" where
  "tag_name t = takeWhile (\<lambda>c. \<not> is_space c \<and> c \<noteq> CHR ''/'') t"

text \<open>
  The effect of one tag (the text between \<open><\<close> and \<open>>\<close>) on the stack of open elements
  and on the flag that the outermost element has been opened.
\<close>

definition apply_tag :: "string \<Rightarrow> string list \<times> bool \<Rightarrow> (string list \<times> bool) option" where
  "apply_tag t st =
     (case t of
        [] \<Rightarrow> None
      | c # cs \<Rightarrow>
          if c = CHR ''?'' then (if cs \<noteq> [] \<and> last cs = CHR ''?'' then Some st else None)
          else if c = CHR ''/'' then
            (case fst st of
               [] \<Rightarrow> None
             | opened # below \<Rightarrow>
                 if tag_name cs = opened \<and> list_all is_space (drop (length opened) cs)
                 then Some (below, snd st) else None)
          else if fst st = [] \<and> snd st then None
          else if tag_name t = [] then None
          else if last t = CHR ''/'' then Some (fst st, True)
          else Some (tag_name t # fst st, True))"

fun xml_scan :: "string list \<times> bool \<Rightarrow> string option \<Rightarrow> string \<Rightarrow> bool" where
  "xml_scan st None [] = (fst st = [] \<and> snd st)"
| "xml_scan st (Some tag) [] = False"
| "xml_scan st None (c # cs) =
     (if c = CHR ''<'' then xml_scan st (Some []) cs
      else if fst st = [] \<and> \<not> is_space c then False
      else xml_scan st None cs)"
| "xml_scan st (Some tag) (c # cs) =
     (if c = CHR ''>''
      then (case apply_tag (rev tag) st of None \<Rightarrow> False | Some st' \<Rightarrow> xml_scan st' None cs)
      else if c = CHR ''<'' then False
      else xml_scan st (Some (c # tag)) cs)"

definition well_formed_xml :: "string \<Rightarrow> bool" where
  "well_formed_xml doc = xml_scan ([], False) None doc"

section \<open>Properties\<close>

text \<open>The unfolding equation of the loop is also the equation by which it is evaluated.\<close>

declare fetch_loop.simps [code]

subsection \<open>The limit on the number of posts\<close>

lemma BLOG_LIMIT_pos: "0 < BLOG_LIMIT cfg"
  by (cases "requestedBlogLimit cfg") (simp_all add: BLOG_LIMIT_def)

lemma length_slice_limit: "of_nat (length (slice_limit cfg xs)) \<le> BLOG_LIMIT cfg"
proof -
  have "length (slice_limit cfg xs) \<le> nat \<lfloor>BLOG_LIMIT cfg\<rfloor>"
    by (simp add: slice_limit_def)
  then have "(of_nat (length (slice_limit cfg xs)) :: rat) \<le> of_nat (nat \<lfloor>BLOG_LIMIT cfg\<rfloor>)"
    by (simp only: of_nat_le_iff)
  also have "\<dots> = of_int \<lfloor>BLOG_LIMIT cfg\<rfloor>"
    using BLOG_LIMIT_pos [of cfg] by simp
  also have "\<dots> \<le> BLOG_LIMIT cfg"
    by (rule of_int_floor_le)
  finally show ?thesis .
qed

lemma fetchAllPosts_Inr:
  assumes "fetchAllPosts cfg rt api = Some (Inr ps)"
  shows "\<exists>n s. fetch_loop cfg rt api 0 loop_init = Some (n, Inr s) \<and>
           ps = slice_limit cfg (posts s)"
proof -
  from assms obtain n r where r: "fetch_loop cfg rt api 0 loop_init = Some (n, r)"
    by (cases "fetch_loop cfg rt api 0 loop_init") (auto simp: fetchAllPosts_def)
  with assms obtain s :: loop_state where "r = Inr s" "ps = slice_limit cfg (posts s)"
    by (cases r) (simp_all add: fetchAllPosts_def)
  with r show ?thesis by blast
qed

lemma fetchPostsFromRss_cases:
  "fetchPostsFromRss cfg rt fetched = (w, ps) \<Longrightarrow>
     (\<exists>e. rss_try cfg rt fetched = Inl e \<and> w = [RssFallbackFailed e] \<and> ps = []) \<or>
     (rss_try cfg rt fetched = Inr ps \<and> w = [])"
  by (auto simp: fetchPostsFromRss_def split: sum.splits)

lemma rss_try_Inr:
  "rss_try cfg rt fetched = Inr ps \<Longrightarrow>
     \<exists>r parsed. fetched = Inr r \<and> ok r \<and>
       map_throwing (rss_post rt) (rss_items (body r)) = Inr parsed \<and>
       filter has_slug_and_link parsed \<noteq> [] \<and>
       ps = slice_limit cfg (filter has_slug_and_link parsed)"
  by (auto simp: rss_try_def Let_def split: sum.splits if_splits)

lemma length_fetchPostsFromRss:
  "of_nat (length (snd (fetchPostsFromRss cfg rt fetched))) \<le> BLOG_LIMIT cfg"
proof (cases "rss_try cfg rt fetched")
  case (Inl e)
  then show ?thesis
    using BLOG_LIMIT_pos [of cfg] by (simp add: fetchPostsFromRss_def)
next
  case (Inr ps)
  then show ?thesis
    using rss_try_Inr [OF Inr] length_slice_limit by (auto simp add: fetchPostsFromRss_def)
qed

text \<open>
  Claim C2. Whatever the configuration and the responses, \<open>fetchAllPosts\<close> and
  \<open>fetchPostsFromRss\<close> return at most \<open>BLOG_LIMIT\<close> posts, and so do the posts the
  run goes on to render (the first component of \<open>gather_posts\<close>).
\<close>

theorem post_limit:
  "(fetchAllPosts cfg rt api = Some (Inr ps) \<longrightarrow> of_nat (length ps) \<le> BLOG_LIMIT cfg) \<and>
   of_nat (length (snd (fetchPostsFromRss cfg rt fetched))) \<le> BLOG_LIMIT cfg \<and>
   (fetchAllPosts cfg rt api = Some primary \<longrightarrow>
      of_nat (length (fst (gather_posts cfg rt primary fetched))) \<le> BLOG_LIMIT cfg)"
proof (intro conjI impI)
  assume "fetchAllPosts cfg rt api = Some (Inr ps)"
  then show "of_nat (length ps) \<le> BLOG_LIMIT cfg"
    using fetchAllPosts_Inr [of cfg rt api ps] length_slice_limit [of cfg] by auto
next
  show "of_nat (length (snd (fetchPostsFromRss cfg rt fetched))) \<le> BLOG_LIMIT cfg"
    by (rule length_fetchPostsFromRss)
next
  assume a: "fetchAllPosts cfg rt api = Some primary"
  show "of_nat (length (fst (gather_posts cfg rt primary fetched))) \<le> BLOG_LIMIT cfg"
  proof (cases primary)
    case (Inl e)
    then show ?thesis
      using length_fetchPostsFromRss [of cfg rt fetched]
      by (cases "fetchPostsFromRss cfg rt fetched") (simp add: gather_posts_def)
  next
    case (Inr fetched_posts)
    with a have "fetchAllPosts cfg rt api = Some (Inr fetched_posts)"
      by simp
    from fetchAllPosts_Inr [OF this] obtain s :: loop_state
      where "fetched_posts = slice_limit cfg (posts s)"
      by blast
    then have "of_nat (length fetched_posts) \<le> BLOG_LIMIT cfg"
      using length_slice_limit by simp
    then show ?thesis
      using Inr length_fetchPostsFromRss [of cfg rt fetched]
      by (cases "fetchPostsFromRss cfg rt fetched") (simp add: gather_posts_def)
  qed
qed

text \<open>
  The example server offers three posts and the limit is two: two posts are returned.
\<close>

theorem post_limit_witness:
  "fetchAllPosts example_config utc_runtime three_posts_api =
     Some (Inr [hello_world, hello_world]) \<and>
   of_nat (length [hello_world, hello_world]) \<le> BLOG_LIMIT example_config \<and>
   of_nat (length (fst (gather_posts example_config utc_runtime
      (Inr [hello_world, hello_world]) unreachable_feed)))
     \<le> BLOG_LIMIT example_config"
proof -
  have h: "fetchAllPosts example_config utc_runtime three_posts_api =
      Some (Inr [hello_world, hello_world])"
    by code_simp
  from post_limit [of example_config utc_runtime three_posts_api "[hello_world, hello_world]"
      unreachable_feed "Inr [hello_world, hello_world]"] h
  show ?thesis by simp
qed

subsection \<open>Termination of the pagination loop\<close>

lemma js_le_trans_Fin: "js_le (Fin a) t \<Longrightarrow> js_le t (Fin b) \<Longrightarrow> a \<le> b"
  by (cases t) auto

lemma js_le_Fin_mono: "a \<le> b \<Longrightarrow> js_le (Fin b) t \<Longrightarrow> js_le (Fin a) t"
  by (cases t) auto

lemma js_lt_Fin_mono: "a < b \<Longrightarrow> js_le (Fin b) t \<Longrightarrow> js_lt (Fin a) t"
  by (cases t) auto

lemma fetchJson_Inr:
  "fetchJson fetched = Inr (d, r) \<Longrightarrow> fetched = Inr r \<and> ok r \<and> json r = Some d"
  by (auto simp: fetchJson_def split: sum.splits if_splits option.splits)

lemma loop_body_Inr:
  "loop_body rt s d r = Inr s' \<Longrightarrow>
     posts s' = posts s @ d \<and> page s' = js_succ (page s) \<and>
     totalPages s' =
       (if \<not> isNaN (headerPages r) \<and> js_lt (Fin 0) (headerPages r)
        then headerPages r else totalPages s)"
  by (auto simp: loop_body_def push_spread_def split: if_splits)

lemma totalPages_loop_body:
  "loop_body rt s d r = Inr s' \<Longrightarrow> header_at_most B (headerPages r) \<Longrightarrow>
     js_le (totalPages s) (Fin T) \<Longrightarrow> B \<le> T \<Longrightarrow> js_le (totalPages s') (Fin T)"
  using loop_body_Inr [of rt s d r s']
  by (cases "headerPages r") (auto simp: header_at_most_def)

lemma fetch_loop_step:
  "loop_cond cfg s \<Longrightarrow> fetchJson (api (Suc n)) = Inr (d, r) \<Longrightarrow> loop_body rt s d r = Inr s' \<Longrightarrow>
     fetch_loop cfg rt api n s = fetch_loop cfg rt api (Suc n) s'"
  by (subst fetch_loop.simps) simp

lemma fetch_loop_stops:
  "\<not> loop_cond cfg s \<or> (\<exists>e. fetchJson (api (Suc n)) = Inl e) \<or>
     (\<exists>d r e. fetchJson (api (Suc n)) = Inr (d, r) \<and> loop_body rt s d r = Inl e) \<Longrightarrow>
   \<exists>k res. fetch_loop cfg rt api n s = Some (k, res)"
  by (subst fetch_loop.simps) auto

lemma fetch_loop_terminates_bounded:
  assumes hb: "\<And>k r d. api k = Inr r \<Longrightarrow> ok r \<Longrightarrow> json r = Some d
                 \<Longrightarrow> header_at_most B (headerPages r)"
    and small: "T < 9007199254740992"
  shows "js_le (totalPages s) (Fin T) \<Longrightarrow> B \<le> T \<Longrightarrow>
           \<exists>k res. fetch_loop cfg rt api n s = Some (k, res)"
proof (induction "nat \<lceil>T\<rceil> + 1 - page s" arbitrary: s n rule: less_induct)
  case less
  show ?case
  proof (cases "loop_cond cfg s")
    case False
    then show ?thesis using fetch_loop_stops by blast
  next
    case True
    show ?thesis
    proof (cases "fetchJson (api (Suc n))")
      case (Inl e)
      then show ?thesis using fetch_loop_stops by blast
    next
      case (Inr dr)
      obtain d r where dr: "dr = (d, r)" by (cases dr)
      have api: "api (Suc n) = Inr r" "ok r" "json r = Some d"
        using Inr dr fetchJson_Inr [of "api (Suc n)" d r] by simp_all
      show ?thesis
      proof (cases "loop_body rt s d r")
        case (Inl e)
        with Inr dr show ?thesis using fetch_loop_stops by blast
      next
        case body: (Inr s')
        have t': "js_le (totalPages s') (Fin T)"
          using totalPages_loop_body [OF body hb [OF api] less.prems] .
        have "js_le (Fin (of_nat (page s))) (totalPages s)"
          using True by (simp add: loop_cond_def)
        then have le: "of_nat (page s) \<le> T"
          using less.prems(1) js_le_trans_Fin by blast
        then have "(of_nat (page s) :: rat) < of_nat 9007199254740992"
          using small by simp
        then have lt: "page s < 9007199254740992"
          by (simp only: of_nat_less_iff)
        have "(of_nat (page s) :: rat) \<le> of_int \<lceil>T\<rceil>"
          using le le_of_int_ceiling [of T] by linarith
        then have "of_int (int (page s)) \<le> (of_int \<lceil>T\<rceil> :: rat)"
          by simp
        then have "int (page s) \<le> \<lceil>T\<rceil>"
          by (simp only: of_int_le_iff)
        then have "page s \<le> nat \<lceil>T\<rceil>"
          by linarith
        moreover have "page s' = page s + 1"
          using loop_body_Inr [OF body] lt by (simp add: js_succ_def)
        ultimately have m: "nat \<lceil>T\<rceil> + 1 - page s' < nat \<lceil>T\<rceil> + 1 - page s"
          by linarith
        from less.hyps [OF m t' less.prems(2)]
        obtain k res where "fetch_loop cfg rt api (Suc n) s' = Some (k, res)" by blast
        then show ?thesis
          using fetch_loop_step [OF True _ body, of api n] Inr dr by simp
      qed
    qed
  qed
qed

lemma fetch_loop_terminates_nonempty:
  assumes ne: "\<And>k r d. api k = Inr r \<Longrightarrow> ok r \<Longrightarrow> json r = Some d \<Longrightarrow> d \<noteq> []"
  shows "\<exists>k res. fetch_loop cfg rt api n s = Some (k, res)"
proof (induction "nat \<lceil>BLOG_LIMIT cfg\<rceil> - length (posts s)" arbitrary: s n rule: less_induct)
  case less
  show ?case
  proof (cases "loop_cond cfg s")
    case False
    then show ?thesis using fetch_loop_stops by blast
  next
    case True
    show ?thesis
    proof (cases "fetchJson (api (Suc n))")
      case (Inl e)
      then show ?thesis using fetch_loop_stops by blast
    next
      case (Inr dr)
      obtain d r where dr: "dr = (d, r)" by (cases dr)
      have api: "api (Suc n) = Inr r" "ok r" "json r = Some d"
        using Inr dr fetchJson_Inr [of "api (Suc n)" d r] by simp_all
      have d: "d \<noteq> []"
        using ne [OF api] .
      show ?thesis
      proof (cases "loop_body rt s d r")
        case (Inl e)
        with Inr dr show ?thesis using fetch_loop_stops by blast
      next
        case body: (Inr s')
        have "(of_nat (length (posts s)) :: rat) < BLOG_LIMIT cfg"
          using True by (simp add: loop_cond_def)
        then have "(of_nat (length (posts s)) :: rat) < of_int \<lceil>BLOG_LIMIT cfg\<rceil>"
          using le_of_int_ceiling [of "BLOG_LIMIT cfg"] by linarith
        then have "of_int (int (length (posts s))) < (of_int \<lceil>BLOG_LIMIT cfg\<rceil> :: rat)"
          by simp
        then have "int (length (posts s)) < \<lceil>BLOG_LIMIT cfg\<rceil>"
          by (simp only: of_int_less_iff)
        then have "length (posts s) < nat \<lceil>BLOG_LIMIT cfg\<rceil>"
          by linarith
        moreover have "length (posts s') > length (posts s)"
          using d loop_body_Inr [OF body] by simp
        ultimately have m: "nat \<lceil>BLOG_LIMIT cfg\<rceil> - length (posts s')
                              < nat \<lceil>BLOG_LIMIT cfg\<rceil> - length (posts s)"
          by linarith
        from less.hyps [OF m]
        obtain k res where "fetch_loop cfg rt api (Suc n) s' = Some (k, res)" by blast
        then show ?thesis
          using fetch_loop_step [OF True _ body, of api n] Inr dr by simp
      qed
    qed
  qed
qed

text \<open>
  A response with an empty list whose total is at least \<open>2^53\<close> keeps the loop going:
  the page index never gets past \<open>2^53\<close>, and no post is ever accumulated.
\<close>

lemma stalled_never_returns:
  assumes "fetch_loop cfg0 rt0 api0 n0 s0 = Some y0"
  shows "(\<forall>k. api0 k = Inr r0) \<longrightarrow> ok r0 \<longrightarrow> json r0 = Some [] \<longrightarrow>
           js_le (Fin 9007199254740992) (headerPages r0) \<longrightarrow>
           posts s0 = [] \<longrightarrow> page s0 \<le> 9007199254740992 \<longrightarrow>
           js_le (Fin (of_nat (page s0))) (totalPages s0) \<longrightarrow> False"
proof (rule fetch_loop.raw_induct [where P = "\<lambda>cfg rt api n s y.
         (\<forall>k. api k = Inr r0) \<longrightarrow> ok r0 \<longrightarrow> json r0 = Some [] \<longrightarrow>
           js_le (Fin 9007199254740992) (headerPages r0) \<longrightarrow>
           posts s = [] \<longrightarrow> page s \<le> 9007199254740992 \<longrightarrow>
           js_le (Fin (of_nat (page s))) (totalPages s) \<longrightarrow> False", OF _ assms])
  fix f cfg rt api n and s :: loop_state and y
  assume IH: "\<And>cfg rt api n s y. f cfg rt api n s = Some y \<Longrightarrow>
         (\<forall>k. api k = Inr r0) \<longrightarrow> ok r0 \<longrightarrow> json r0 = Some [] \<longrightarrow>
           js_le (Fin 9007199254740992) (headerPages r0) \<longrightarrow>
           posts s = [] \<longrightarrow> page s \<le> 9007199254740992 \<longrightarrow>
           js_le (Fin (of_nat (page s))) (totalPages s) \<longrightarrow> False"
    and unfolded: "(if loop_cond cfg s
         then case fetchJson (api (Suc n)) of
                Inl e \<Rightarrow> Some (Suc n, Inl e)
              | Inr (data, response) \<Rightarrow>
                  (case loop_body rt s data response of
                     Inl e \<Rightarrow> Some (Suc n, Inl e)
                   | Inr s' \<Rightarrow> f cfg rt api (Suc n) s')
         else Some (n, Inr s)) = Some y"
  show "(\<forall>k. api k = Inr r0) \<longrightarrow> ok r0 \<longrightarrow> json r0 = Some [] \<longrightarrow>
           js_le (Fin 9007199254740992) (headerPages r0) \<longrightarrow>
           posts s = [] \<longrightarrow> page s \<le> 9007199254740992 \<longrightarrow>
           js_le (Fin (of_nat (page s))) (totalPages s) \<longrightarrow> False"
  proof (intro impI)
    assume a: "\<forall>k. api k = Inr r0" and o: "ok r0" and j0: "json r0 = Some []"
      and h: "js_le (Fin 9007199254740992) (headerPages r0)"
      and e: "posts s = []" and p: "page s \<le> 9007199254740992"
      and l: "js_le (Fin (of_nat (page s))) (totalPages s)"
    have c: "loop_cond cfg s"
      using e l BLOG_LIMIT_pos [of cfg] by (simp add: loop_cond_def)
    have j: "fetchJson (api (Suc n)) = Inr ([], r0)"
      using a o j0 by (simp add: fetchJson_def)
    define s' where "s' = \<lparr>posts = [], page = js_succ (page s), totalPages = headerPages r0\<rparr>"
    have u: "js_lt (Fin 0) (headerPages r0)" "\<not> isNaN (headerPages r0)"
      using h by (cases "headerPages r0"; simp add: isNaN_def)+
    have b: "loop_body rt s [] r0 = Inr s'"
      using e u by (simp add: loop_body_def push_spread_def s'_def)
    from unfolded c j b have "f cfg rt api (Suc n) s' = Some y"
      by simp
    moreover have p': "page s' \<le> 9007199254740992"
      using p by (simp add: s'_def js_succ_def)
    moreover have "js_le (Fin (of_nat (page s'))) (totalPages s')"
    proof -
      have "(of_nat (page s') :: rat) \<le> of_nat 9007199254740992"
        using p' by (simp only: of_nat_le_iff)
      then have "(of_nat (page s') :: rat) \<le> 9007199254740992"
        by simp
      from js_le_Fin_mono [OF this h] show ?thesis
        by (simp add: s'_def)
    qed
    moreover have "posts s' = []"
      by (simp add: s'_def)
    ultimately show False
      using IH a o j0 h by blast
  qed
qed

lemma stalled_fetchAllPosts:
  assumes "\<forall>k. api k = Inr r" "ok r" "json r = Some []"
    and "js_le (Fin 9007199254740992) (headerPages r)"
  shows "fetchAllPosts cfg rt api = None"
proof (cases "fetch_loop cfg rt api 0 loop_init")
  case None
  then show ?thesis by (simp add: fetchAllPosts_def)
next
  case (Some y)
  from stalled_never_returns [OF Some, of r] assms have False
    by (simp add: loop_init_def)
  then show ?thesis ..
qed

text \<open>
  Claim C4 as stated fails. Every response of \<open>endless_api\<close> is successful, has an
  empty list as its body and the value \<open>Infinity\<close> in the total-pages header: the page
  index never exceeds the total and no post is ever accumulated, so the loop of
  \<open>fetchAllPosts\<close> never returns.
\<close>

theorem pagination_endless:
  "ok endless_response \<and> json endless_response = Some [] \<and>
   fetchAllPosts default_config utc_runtime endless_api = None"
proof -
  have "fetchAllPosts default_config utc_runtime endless_api = None"
    by (rule stalled_fetchAllPosts [of endless_api endless_response])
      (simp_all add: endless_api_def endless_response_def headerPages_def)
  then show ?thesis
    by (simp add: endless_response_def)
qed

text \<open>
  A finite total does the same when it is not below \<open>2^53\<close>: the page index stays at
  \<open>2^53\<close>, and the same request is repeated for ever.
\<close>

lemma pagination_stalls: "fetchAllPosts default_config utc_runtime stalling_api = None"
  by (rule stalled_fetchAllPosts [of stalling_api stalling_response])
    (simp_all add: stalling_api_def stalling_response_def headerPages_def)

lemma fetchAllPosts_returns:
  "fetch_loop cfg rt api 0 loop_init = Some (k, res) \<Longrightarrow> \<exists>res'. fetchAllPosts cfg rt api = Some res'"
  by (cases res) (simp_all add: fetchAllPosts_def)

text \<open>
  Claim C4, amended. The pagination loop of \<open>fetchAllPosts\<close> returns after finitely many
  requests for every sequence of responses in which the total-pages values of the
  successful responses are bounded by some number below \<open>2^53\<close>, and for every sequence
  in which each successful response carries at least one post.
\<close>

theorem pagination_terminates:
  assumes "(\<exists>B. B < 9007199254740992 \<and> headers_bounded api B) \<or> bodies_nonempty api"
  shows "(\<exists>k res. fetch_loop cfg rt api 0 loop_init = Some (k, res)) \<and>
         (\<exists>res. fetchAllPosts cfg rt api = Some res)"
proof -
  have "\<exists>k res. fetch_loop cfg rt api 0 loop_init = Some (k, res)"
    using assms
  proof
    assume "\<exists>B. B < 9007199254740992 \<and> headers_bounded api B"
    then obtain B where s: "B < 9007199254740992"
      and b: "\<And>k r d. api k = Inr r \<Longrightarrow> ok r \<Longrightarrow> json r = Some d
                \<Longrightarrow> header_at_most B (headerPages r)"
      unfolding headers_bounded_def by blast
    have t: "max B 1 < 9007199254740992"
      using s by simp
    have "js_le (totalPages loop_init) (Fin (max B 1))"
      by (simp add: loop_init_def)
    from fetch_loop_terminates_bounded [of api B "max B 1" loop_init cfg rt 0, OF b t this]
    show ?thesis by simp
  next
    assume "bodies_nonempty api"
    then have "\<And>k r d. api k = Inr r \<Longrightarrow> ok r \<Longrightarrow> json r = Some d \<Longrightarrow> d \<noteq> []"
      unfolding bodies_nonempty_def by blast
    from fetch_loop_terminates_nonempty [of api cfg rt 0 loop_init, OF this]
    show ?thesis .
  qed
  then show ?thesis
    using fetchAllPosts_returns by blast
qed

text \<open>
  The server with one page of three posts announces one page in every response, and
  each of its responses carries posts.
\<close>

theorem pagination_terminates_witness:
  "(1::rat) < 9007199254740992 \<and> headers_bounded three_posts_api 1 \<and>
   bodies_nonempty three_posts_api \<and>
   (\<exists>k res. fetch_loop example_config utc_runtime three_posts_api 0 loop_init = Some (k, res)) \<and>
   (\<exists>res. fetchAllPosts example_config utc_runtime three_posts_api = Some res)"
proof -
  have h: "headers_bounded three_posts_api 1"
    by (auto simp: headers_bounded_def three_posts_api_def header_at_most_def headerPages_def)
  have n: "bodies_nonempty three_posts_api"
    by (auto simp: bodies_nonempty_def three_posts_api_def)
  have s: "(1::rat) < 9007199254740992"
    by simp
  from h s have "(\<exists>B. B < 9007199254740992 \<and> headers_bounded three_posts_api B) \<or>
      bodies_nonempty three_posts_api"
    by blast
  from pagination_terminates [OF this, of example_config utc_runtime] h n s
  show ?thesis by blast
qed

subsection \<open>The total-pages header\<close>

lemma loop_body_keeps_total:
  "totalPagesHeader r = None \<or> totalPagesHeader r = Some NaN \<Longrightarrow> loop_body rt s d r = Inr s' \<Longrightarrow>
     totalPages s' = totalPages s"
  using loop_body_Inr [of rt s d r s'] by (auto simp: headerPages_def isNaN_def)

lemma loop_body_takes_header:
  "js_lt (Fin 0) (headerPages r) \<Longrightarrow> loop_body rt s d r = Inr s' \<Longrightarrow>
     totalPages s' = headerPages r"
  using loop_body_Inr [of rt s d r s'] by (cases "headerPages r") (auto simp: isNaN_def)

lemma first_page_without_header:
  assumes "api 1 = Inr r" "ok r" "json r = Some d"
    and "totalPagesHeader r = None \<or> totalPagesHeader r = Some NaN"
  shows "fetch_loop cfg rt api 0 loop_init =
           Some (1, case push_spread rt [] d of
                      Inl e \<Rightarrow> Inl e
                    | Inr pushed \<Rightarrow> Inr \<lparr>posts = pushed, page = 2, totalPages = Fin 1\<rparr>)"
proof -
  have c: "loop_cond cfg loop_init"
    using BLOG_LIMIT_pos [of cfg] by (simp add: loop_cond_def loop_init_def)
  have j: "fetchJson (api (Suc 0)) = Inr (d, r)"
    using assms(1-3) by (simp add: fetchJson_def)
  show ?thesis
  proof (cases "push_spread rt [] d")
    case (Inl e)
    then have "loop_body rt loop_init d r = Inl e"
      by (simp add: loop_body_def loop_init_def)
    with c j Inl show ?thesis
      by (subst fetch_loop.simps) simp
  next
    case (Inr pushed)
    have h: "\<not> (\<not> isNaN (headerPages r) \<and> js_lt (Fin 0) (headerPages r))"
      using assms(4) by (auto simp: headerPages_def isNaN_def)
    have b: "loop_body rt loop_init d r = Inr \<lparr>posts = pushed, page = 2, totalPages = Fin 1\<rparr>"
      using Inr by (simp add: loop_body_def loop_init_def js_succ_def if_not_P [OF h])
    have n: "\<not> loop_cond cfg \<lparr>posts = pushed, page = 2, totalPages = Fin 1\<rparr>"
      by (simp add: loop_cond_def)
    have "fetch_loop cfg rt api 0 loop_init =
            fetch_loop cfg rt api (Suc 0) \<lparr>posts = pushed, page = 2, totalPages = Fin 1\<rparr>"
      using fetch_loop_step [of cfg loop_init api 0 d r rt, OF c j b] .
    also have "\<dots> = Some (Suc 0, Inr \<lparr>posts = pushed, page = 2, totalPages = Fin 1\<rparr>)"
      using n by (subst fetch_loop.simps) simp
    finally show ?thesis
      using Inr by simp
  qed
qed

text \<open>
  Claim C3 as stated fails. The first response of \<open>five_pages_api\<close> announces five
  pages and the later ones carry no header. After the response to page 2, which has no
  header, the loop does not fall back to one page and does not stop after one more
  request: it goes on to request pages 3, 4 and 5 and ends after five requests with the
  page index 6 and the total 5.
\<close>

theorem five_pages_after_missing_header:
  "totalPagesHeader (five_pages_response 2) = None \<and>
   fetch_loop default_config utc_runtime five_pages_api 0 loop_init =
     Some (5, Inr \<lparr>posts = [hello_world, hello_world, hello_world, hello_world, hello_world],
                   page = 6, totalPages = Fin 5\<rparr>)"
  by code_simp

text \<open>
  Claim C3, amended. The total starts at one page. A response whose header is absent or
  not a number leaves the total as it is, a header greater than 0 replaces it, and the
  loop continues from the updated state. Hence, when the first response has no usable
  header, exactly one request is made: the loop ends with the page index 2 and the total
  of one page, and \<open>fetchAllPosts\<close> returns the posts of that response cut to the limit
  (or it throws what \<open>push\<close> throws when that response has too many posts for a call).
\<close>

theorem total_pages_header:
  "((totalPagesHeader r = None \<or> totalPagesHeader r = Some NaN) \<and>
      loop_body rt s d r = Inr s1 \<longrightarrow> totalPages s1 = totalPages s) \<and>
   (js_lt (Fin 0) (headerPages r') \<and> loop_body rt s d r' = Inr s2 \<longrightarrow>
      totalPages s2 = headerPages r') \<and>
   (loop_cond cfg s \<and> fetchJson (api (Suc n)) = Inr (d, r) \<and> loop_body rt s d r = Inr s1 \<longrightarrow>
      fetch_loop cfg rt api n s = fetch_loop cfg rt api (Suc n) s1) \<and>
   (api' 1 = Inr r \<and> ok r \<and> json r = Some d \<and>
      (totalPagesHeader r = None \<or> totalPagesHeader r = Some NaN) \<longrightarrow>
      fetch_loop cfg rt api' 0 loop_init =
        Some (1, case push_spread rt [] d of
                   Inl e \<Rightarrow> Inl e
                 | Inr pushed \<Rightarrow> Inr \<lparr>posts = pushed, page = 2, totalPages = Fin 1\<rparr>) \<and>
      fetchAllPosts cfg rt api' =
        Some (case push_spread rt [] d of
                Inl e \<Rightarrow> Inl e
              | Inr pushed \<Rightarrow> Inr (slice_limit cfg pushed)))"
proof (intro conjI impI)
  assume "(totalPagesHeader r = None \<or> totalPagesHeader r = Some NaN) \<and>
      loop_body rt s d r = Inr s1"
  then show "totalPages s1 = totalPages s"
    using loop_body_keeps_total by blast
next
  assume "js_lt (Fin 0) (headerPages r') \<and> loop_body rt s d r' = Inr s2"
  then show "totalPages s2 = headerPages r'"
    using loop_body_takes_header by blast
next
  assume "loop_cond cfg s \<and> fetchJson (api (Suc n)) = Inr (d, r) \<and> loop_body rt s d r = Inr s1"
  then show "fetch_loop cfg rt api n s = fetch_loop cfg rt api (Suc n) s1"
    using fetch_loop_step by blast
next
  assume a: "api' 1 = Inr r \<and> ok r \<and> json r = Some d \<and>
      (totalPagesHeader r = None \<or> totalPagesHeader r = Some NaN)"
  then show f: "fetch_loop cfg rt api' 0 loop_init =
        Some (1, case push_spread rt [] d of
                   Inl e \<Rightarrow> Inl e
                 | Inr pushed \<Rightarrow> Inr \<lparr>posts = pushed, page = 2, totalPages = Fin 1\<rparr>)"
    using first_page_without_header [of api' r d cfg rt] by blast
  show "fetchAllPosts cfg rt api' =
        Some (case push_spread rt [] d of
                Inl e \<Rightarrow> Inl e
              | Inr pushed \<Rightarrow> Inr (slice_limit cfg pushed))"
    using f by (cases "push_spread rt [] d") (simp_all add: fetchAllPosts_def)
qed

text \<open>
  A response without the header after the initial state, and the first response of
  \<open>five_pages_api\<close> for the header that is taken over.
\<close>

theorem total_pages_header_witness:
  "totalPagesHeader no_header_response = None \<and>
   loop_body utc_runtime loop_init [hello_world] no_header_response =
     Inr \<lparr>posts = [hello_world], page = 2, totalPages = Fin 1\<rparr> \<and>
   js_lt (Fin 0) (headerPages (five_pages_response 1)) \<and>
   loop_body utc_runtime loop_init [hello_world] (five_pages_response 1) =
     Inr \<lparr>posts = [hello_world], page = 2, totalPages = Fin 5\<rparr> \<and>
   loop_cond example_config loop_init \<and>
   fetchJson (no_header_api (Suc 0)) = Inr ([hello_world], no_header_response) \<and>
   fetch_loop example_config utc_runtime no_header_api 0 loop_init =
     Some (1, Inr \<lparr>posts = [hello_world], page = 2, totalPages = Fin 1\<rparr>) \<and>
   fetchAllPosts example_config utc_runtime no_header_api = Some (Inr [hello_world])"
proof -
  have h1: "totalPagesHeader no_header_response = None"
    by (simp add: no_header_response_def)
  have b1: "loop_body utc_runtime loop_init [hello_world] no_header_response =
     Inr \<lparr>posts = [hello_world], page = 2, totalPages = Fin 1\<rparr>"
    by code_simp
  have h2: "js_lt (Fin 0) (headerPages (five_pages_response 1))"
    by (simp add: five_pages_response_def headerPages_def)
  have b2: "loop_body utc_runtime loop_init [hello_world] (five_pages_response 1) =
     Inr \<lparr>posts = [hello_world], page = 2, totalPages = Fin 5\<rparr>"
    by code_simp
  have h3: "loop_cond example_config loop_init"
    by code_simp
  have h4: "fetchJson (no_header_api (Suc 0)) = Inr ([hello_world], no_header_response)"
    by (simp add: fetchJson_def no_header_api_def no_header_response_def)
  have h5: "no_header_api 1 = Inr no_header_response \<and> ok no_header_response \<and>
            json no_header_response = Some [hello_world]"
    by (simp add: no_header_api_def no_header_response_def)
  have v1: "totalPages loop_init = Fin 1"
    by (simp add: loop_init_def)
  have v2: "headerPages (five_pages_response 1) = Fin 5"
    by (simp add: five_pages_response_def headerPages_def)
  have v3: "push_spread utc_runtime [] [hello_world] = Inr [hello_world]"
    by code_simp
  have v4: "slice_limit example_config [hello_world] = [hello_world]"
    by code_simp
  note t = total_pages_header [of no_header_response utc_runtime loop_init "[hello_world]"
      "\<lparr>posts = [hello_world], page = 2, totalPages = Fin 1\<rparr>"
      "five_pages_response 1" "\<lparr>posts = [hello_world], page = 2, totalPages = Fin 5\<rparr>"
      example_config no_header_api 0 no_header_api]
  from t h1 h5 have "fetch_loop example_config utc_runtime no_header_api 0 loop_init =
        Some (1, case push_spread utc_runtime [] [hello_world] of
                   Inl e \<Rightarrow> Inl e
                 | Inr pushed \<Rightarrow> Inr \<lparr>posts = pushed, page = 2, totalPages = Fin 1\<rparr>) \<and>
      fetchAllPosts example_config utc_runtime no_header_api =
        Some (case push_spread utc_runtime [] [hello_world] of
                Inl e \<Rightarrow> Inl e
              | Inr pushed \<Rightarrow> Inr (slice_limit example_config pushed))"
    by blast
  then have c4: "fetch_loop example_config utc_runtime no_header_api 0 loop_init =
      Some (1, Inr \<lparr>posts = [hello_world], page = 2, totalPages = Fin 1\<rparr>) \<and>
    fetchAllPosts example_config utc_runtime no_header_api = Some (Inr [hello_world])"
    using v4 by (simp add: v3)
  from h1 b1 h2 b2 h3 h4 c4 show ?thesis
    by blast
qed

subsection \<open>The entries of the sitemap\<close>

lemma map_throwing_Inr:
  "map_throwing f xs = Inr ys \<longleftrightarrow> list_all2 (\<lambda>x y. f x = Inr y) xs ys"
proof (induction xs arbitrary: ys)
  case Nil
  then show ?case by auto
next
  case (Cons x xs)
  show ?case
  proof (cases "f x")
    case (Inl e)
    then show ?thesis by (auto simp: list_all2_Cons1)
  next
    case (Inr y)
    then show ?thesis
      using Cons.IH by (cases "map_throwing f xs") (auto simp: list_all2_Cons1)
  qed
qed

lemma map_throwing_total:
  "(\<And>x. x \<in> set xs \<Longrightarrow> \<exists>y. f x = Inr y) \<Longrightarrow> \<exists>ys. map_throwing f xs = Inr ys"
proof (induction xs)
  case Nil
  then show ?case by simp
next
  case (Cons x xs)
  then obtain y ys where "f x = Inr y" "map_throwing f xs = Inr ys"
    by (metis list.set_intros(1) list.set_intros(2))
  then show ?case by simp
qed

lemma push_posts_map_throwing:
  "push_posts cfg rt urls ps =
     (case map_throwing (post_url cfg rt) ps of Inl e \<Rightarrow> Inl e | Inr es \<Rightarrow> Inr (urls @ es))"
proof (induction ps arbitrary: urls)
  case Nil
  then show ?case by simp
next
  case (Cons p ps)
  then show ?case
    by (cases "post_url cfg rt p"; cases "map_throwing (post_url cfg rt) ps") simp_all
qed



lemma post_lastmod_ok:
  "modified_ok rt p \<Longrightarrow> \<exists>lastmod. post_lastmod rt p = Inr lastmod"
  by (auto simp: modified_ok_def post_lastmod_def split: option.splits)

lemma post_url_ok:
  "modified_ok rt p \<Longrightarrow> \<exists>u. post_url cfg rt p = Inr u"
  using post_lastmod_ok [of rt p] by (auto simp: post_url_def)

lemma post_url_Inr:
  "post_url cfg rt p = Inr u \<Longrightarrow>
     \<exists>lastmod. u = url_block (BASE_URL cfg @ ''/'' @
          (case first_term p of None \<Rightarrow> ''blog''
           | Some t \<Rightarrow> if term_slug t = [] then ''blog'' else term_slug t) @ ''/'' @ slug p)
        lastmod ''monthly'' ''0.6'' \<and>
     (case modified p of
        None \<Rightarrow> lastmod = date_part (now_iso rt)
      | Some m \<Rightarrow> if m = [] then lastmod = date_part (now_iso rt)
                  else (\<exists>stamp. date_iso rt m = Some stamp \<and> lastmod = date_part stamp))"
  by (auto simp: post_url_def post_lastmod_def post_categorySlug_def js_or_def
      split: sum.splits option.splits if_splits)

lemma url_block_text:
  "url_block loc lastmod changefreq priority =
     ''  <url>'' @ [CHR 0x0A] @
     ''    <loc>'' @ loc @ ''</loc>'' @ [CHR 0x0A] @
     ''    <lastmod>'' @ lastmod @ ''</lastmod>'' @ [CHR 0x0A] @
     ''    <changefreq>'' @ changefreq @ ''</changefreq>'' @ [CHR 0x0A] @
     ''    <priority>'' @ priority @ ''</priority>'' @ [CHR 0x0A] @
     ''  </url>''"
  by (simp add: url_block_def nl_def)

lemma post_url_text:
  assumes "post_url cfg rt p = Inr u"
  shows "\<exists>lastmod.
           u = ''  <url>'' @ [CHR 0x0A] @
               ''    <loc>'' @ BASE_URL cfg @ ''/'' @
                  (case first_term p of None \<Rightarrow> ''blog''
                   | Some t \<Rightarrow> if term_slug t = [] then ''blog'' else term_slug t) @
                  ''/'' @ slug p @ ''</loc>'' @ [CHR 0x0A] @
               ''    <lastmod>'' @ lastmod @ ''</lastmod>'' @ [CHR 0x0A] @
               ''    <changefreq>monthly</changefreq>'' @ [CHR 0x0A] @
               ''    <priority>0.6</priority>'' @ [CHR 0x0A] @
               ''  </url>'' \<and>
           (case modified p of
              None \<Rightarrow> lastmod = date_part (now_iso rt)
            | Some m \<Rightarrow>
                if m = [] then lastmod = date_part (now_iso rt)
                else (keeps_the_day rt m \<longrightarrow> lastmod = take 10 m))"
proof -
  from post_url_Inr [OF assms] obtain lastmod where
    u: "u = url_block (BASE_URL cfg @ ''/'' @
          (case first_term p of None \<Rightarrow> ''blog''
           | Some t \<Rightarrow> if term_slug t = [] then ''blog'' else term_slug t) @ ''/'' @ slug p)
        lastmod ''monthly'' ''0.6''"
    and l: "(case modified p of
        None \<Rightarrow> lastmod = date_part (now_iso rt)
      | Some m \<Rightarrow> if m = [] then lastmod = date_part (now_iso rt)
                  else (\<exists>stamp. date_iso rt m = Some stamp \<and> lastmod = date_part stamp))"
    by blast
  have "case modified p of
              None \<Rightarrow> lastmod = date_part (now_iso rt)
            | Some m \<Rightarrow>
                if m = [] then lastmod = date_part (now_iso rt)
                else (keeps_the_day rt m \<longrightarrow> lastmod = take 10 m)"
    using l by (auto simp: keeps_the_day_def split: option.splits)
  moreover have "u = ''  <url>'' @ [CHR 0x0A] @
               ''    <loc>'' @ BASE_URL cfg @ ''/'' @
                  (case first_term p of None \<Rightarrow> ''blog''
                   | Some t \<Rightarrow> if term_slug t = [] then ''blog'' else term_slug t) @
                  ''/'' @ slug p @ ''</loc>'' @ [CHR 0x0A] @
               ''    <lastmod>'' @ lastmod @ ''</lastmod>'' @ [CHR 0x0A] @
               ''    <changefreq>monthly</changefreq>'' @ [CHR 0x0A] @
               ''    <priority>0.6</priority>'' @ [CHR 0x0A] @
               ''  </url>''"
    unfolding u url_block_text by simp
  ultimately show ?thesis
    by blast
qed

text \<open>
  Claim C5 as stated fails. On a machine four hours ahead of UTC the post of the example,
  modified on 2024-01-15 at midnight, is entered with the day before; and one post whose
  modification date is no date makes the renderer throw, so that no post gets an entry
  and the \<open>try\<close> block ends with the error.
\<close>

theorem lastmod_of_another_day:
  "modified hello_world = Some ''2024-01-15T00:00:00'' \<and>
   sitemap_urls example_config gulf_runtime [] [hello_world] =
     Inr [''  <url>'' @ [CHR 0x0A] @
          ''    <loc>https://example.com/news/hello-world</loc>'' @ [CHR 0x0A] @
          ''    <lastmod>2024-01-14</lastmod>'' @ [CHR 0x0A] @
          ''    <changefreq>monthly</changefreq>'' @ [CHR 0x0A] @
          ''    <priority>0.6</priority>'' @ [CHR 0x0A] @
          ''  </url>''] \<and>
   sitemap_urls example_config utc_runtime [] [hello_world, misdated_post] =
     Inl InvalidTimeValue \<and>
   build_sitemap example_config utc_runtime [] [hello_world, misdated_post] None =
     Inl InvalidTimeValue"
  by code_simp

text \<open>
  Claim C5, amended. When every modification date that is present is a text the date
  parser accepts, the renderer appends exactly one entry per post, in the order of the
  posts and after the category entries. The entry of a post is the \<open><url>\<close> block with
  the location \<open>BASE_URL/categorySlug/slug\<close>, where the category slug is the slug of
  the first embedded term when there is one with a non-empty slug and \<open>blog\<close>
  otherwise, with \<open>changefreq\<close> \<open>monthly\<close> and priority 0.6. Its \<open>lastmod\<close> is the
  date part of the current date when the post has no modification date, and the first
  ten characters \<open>YYYY-MM-DD\<close> of the modification date when the runtime reads that
  date as an instant of the same day in UTC.
\<close>

theorem post_entries:
  assumes "\<forall>p\<in>set ps. modified_ok rt p"
  shows "\<exists>entries. sitemap_urls cfg rt categories ps =
             Inr (add_category_pages cfg rt [] categories @ entries) \<and>
           length entries = length ps \<and>
           (\<forall>i<length ps. \<exists>lastmod.
              entries ! i =
                ''  <url>'' @ [CHR 0x0A] @
                ''    <loc>'' @ BASE_URL cfg @ ''/'' @
                   (case first_term (ps ! i) of None \<Rightarrow> ''blog''
                    | Some t \<Rightarrow> if term_slug t = [] then ''blog'' else term_slug t) @
                   ''/'' @ slug (ps ! i) @ ''</loc>'' @ [CHR 0x0A] @
                ''    <lastmod>'' @ lastmod @ ''</lastmod>'' @ [CHR 0x0A] @
                ''    <changefreq>monthly</changefreq>'' @ [CHR 0x0A] @
                ''    <priority>0.6</priority>'' @ [CHR 0x0A] @
                ''  </url>'' \<and>
              (case modified (ps ! i) of
                 None \<Rightarrow> lastmod = date_part (now_iso rt)
               | Some m \<Rightarrow>
                   if m = [] then lastmod = date_part (now_iso rt)
                   else (keeps_the_day rt m \<longrightarrow> lastmod = take 10 m)))"
proof -
  from assms have "\<And>p. p \<in> set ps \<Longrightarrow> \<exists>u. post_url cfg rt p = Inr u"
    using post_url_ok by blast
  from map_throwing_total [of ps "post_url cfg rt", OF this]
  obtain entries where e: "map_throwing (post_url cfg rt) ps = Inr entries"
    by blast
  then have l: "list_all2 (\<lambda>p u. post_url cfg rt p = Inr u) ps entries"
    by (simp add: map_throwing_Inr)
  have "sitemap_urls cfg rt categories ps = Inr (add_category_pages cfg rt [] categories @ entries)"
    using e by (simp add: sitemap_urls_def push_posts_map_throwing)
  moreover have "length entries = length ps"
    using l by (simp add: list_all2_lengthD)
  moreover have "\<forall>i<length ps. post_url cfg rt (ps ! i) = Inr (entries ! i)"
    using l by (simp add: list_all2_conv_all_nth)
  ultimately show ?thesis
    using post_url_text by blast
qed

text \<open>
  The example of the specification on a machine in UTC, followed by a post without
  modification date and without category: the first entry carries the date of the post,
  the second the date of the run and the category \<open>blog\<close>.
\<close>

theorem post_entries_witness:
  "modified_ok utc_runtime hello_world \<and> modified_ok utc_runtime undated_post \<and>
   keeps_the_day utc_runtime ''2024-01-15T00:00:00'' \<and>
   sitemap_urls example_config utc_runtime [] [hello_world, undated_post] =
     Inr [''  <url>'' @ [CHR 0x0A] @
          ''    <loc>https://example.com/news/hello-world</loc>'' @ [CHR 0x0A] @
          ''    <lastmod>2024-01-15</lastmod>'' @ [CHR 0x0A] @
          ''    <changefreq>monthly</changefreq>'' @ [CHR 0x0A] @
          ''    <priority>0.6</priority>'' @ [CHR 0x0A] @
          ''  </url>'',
          ''  <url>'' @ [CHR 0x0A] @
          ''    <loc>https://example.com/blog/about</loc>'' @ [CHR 0x0A] @
          ''    <lastmod>2026-11-03</lastmod>'' @ [CHR 0x0A] @
          ''    <changefreq>monthly</changefreq>'' @ [CHR 0x0A] @
          ''    <priority>0.6</priority>'' @ [CHR 0x0A] @
          ''  </url>'']"
proof -
  have h1: "modified_ok utc_runtime hello_world"
    by (simp add: modified_ok_def hello_world_def utc_runtime_def)
  have h2: "modified_ok utc_runtime undated_post"
    by (simp add: modified_ok_def undated_post_def)
  have k: "keeps_the_day utc_runtime ''2024-01-15T00:00:00''"
    by code_simp
  have v: "sitemap_urls example_config utc_runtime [] [hello_world, undated_post] =
     Inr [''  <url>'' @ [CHR 0x0A] @
          ''    <loc>https://example.com/news/hello-world</loc>'' @ [CHR 0x0A] @
          ''    <lastmod>2024-01-15</lastmod>'' @ [CHR 0x0A] @
          ''    <changefreq>monthly</changefreq>'' @ [CHR 0x0A] @
          ''    <priority>0.6</priority>'' @ [CHR 0x0A] @
          ''  </url>'',
          ''  <url>'' @ [CHR 0x0A] @
          ''    <loc>https://example.com/blog/about</loc>'' @ [CHR 0x0A] @
          ''    <lastmod>2026-11-03</lastmod>'' @ [CHR 0x0A] @
          ''    <changefreq>monthly</changefreq>'' @ [CHR 0x0A] @
          ''    <priority>0.6</priority>'' @ [CHR 0x0A] @
          ''  </url>'']"
    by code_simp
  from post_entries [of "[hello_world, undated_post]" utc_runtime example_config "[]"] h1 h2
  have "\<exists>entries. sitemap_urls example_config utc_runtime [] [hello_world, undated_post] =
          Inr (add_category_pages example_config utc_runtime [] [] @ entries)"
    by auto
  with h1 h2 k v show ?thesis
    by simp
qed






subsection \<open>A run without posts\<close>

lemma gather_posts_empty:
  assumes "primary = Inr [] \<or> (\<exists>e. primary = Inl e)"
    and "snd (fetchPostsFromRss cfg rt fetched) = []"
  shows "\<exists>via lines. gather_posts cfg rt primary fetched =
           ([], (case primary of Inl e \<Rightarrow> Some e | Inr _ \<Rightarrow> None), via, lines)"
  using assms
  by (cases "fetchPostsFromRss cfg rt fetched") (auto simp: gather_posts_def)

lemma save_emptySitemap_Inr:
  assumes "dist_exists fs \<or> \<not> mkdir_fails d" and "\<not> write_fails d emptySitemap"
  shows "save_emptySitemap d fs =
           Inr \<lparr>dist_exists = True, sitemap_blog_xml = Some emptySitemap\<rparr>"
  using assms by (cases fs) (auto simp: save_emptySitemap_def ensure_dist_def writeFileSync_def)

lemma emptySitemap_text:
  "emptySitemap =
     ''<?xml version='' @ [CHR 0x22] @ ''1.0'' @ [CHR 0x22] @ '' encoding='' @ [CHR 0x22] @
       ''UTF-8'' @ [CHR 0x22] @ ''?>'' @ [CHR 0x0A] @
     ''<urlset xmlns='' @ [CHR 0x22] @ ''http://www.sitemaps.org/schemas/sitemap/0.9'' @
       [CHR 0x22] @ ''>'' @ [CHR 0x0A] @
     ''</urlset>''"
  by (simp add: emptySitemap_def xml_declaration_def urlset_open_def nl_def)

lemma emptySitemap_well_formed:
  "well_formed_xml emptySitemap \<and> occurrences ''<url>'' emptySitemap = 0"
  by code_simp

text \<open>
  Claim C1 as stated fails. The API answers 403, the feed cannot be reached, and the
  directory \<open>dist\<close> is missing on a file system that cannot be written to:
  \<open>fs.mkdirSync\<close> throws inside the \<open>catch\<close> block, where nothing catches it, so the
  function throws and no file is written.
\<close>

theorem readonly_disk_raises:
  "fetchAllPosts example_config utc_runtime (posts_api blocked_sources) =
     Some (Inl (WordPressAPI 403 ''Forbidden'' ''blocked'')) \<and>
   snd (fetchPostsFromRss example_config utc_runtime (feed blocked_sources)) = [] \<and>
   writeBlogSitemap example_config utc_runtime blocked_sources readonly_disk no_files =
     Some (Inl (FsError ''mkdirSync''))"
  by code_simp

text \<open>
  Claim C1, amended. When the primary fetch returns, either with an error or with no
  posts, the feed yields no posts either, and the file system lets the \<open>catch\<close> block
  work (the directory \<open>dist\<close> exists or can be created, and the empty sitemap can be
  written), \<open>writeBlogSitemap\<close> returns \<open>false\<close> instead of throwing, the directory
  exists afterwards, and the file holds the text given below: the XML declaration and an
  empty \<open>urlset\<close> element. This text is well-formed and \<open><url>\<close> does not occur in it.
  The console ends with the error that names the error of the API, if there was one.
\<close>

theorem empty_sitemap_when_no_posts:
  assumes "fetchAllPosts cfg rt (posts_api src) = Some primary"
    and "primary = Inr [] \<or> (\<exists>e. primary = Inl e)"
    and "snd (fetchPostsFromRss cfg rt (feed src)) = []"
    and "dist_exists fs \<or> \<not> mkdir_fails d"
    and "\<not> write_fails d emptySitemap"
  shows "\<exists>out lines text.
           writeBlogSitemap cfg rt src d fs = Some (Inr out) \<and>
           returned out = False \<and>
           dist_exists (written out) \<and>
           sitemap_blog_xml (written out) = Some text \<and>
           text =
             ''<?xml version='' @ [CHR 0x22] @ ''1.0'' @ [CHR 0x22] @ '' encoding='' @
               [CHR 0x22] @ ''UTF-8'' @ [CHR 0x22] @ ''?>'' @ [CHR 0x0A] @
             ''<urlset xmlns='' @ [CHR 0x22] @ ''http://www.sitemaps.org/schemas/sitemap/0.9'' @
               [CHR 0x22] @ ''>'' @ [CHR 0x0A] @
             ''</urlset>'' \<and>
           well_formed_xml text \<and>
           occurrences ''<url>'' text = 0 \<and>
           console out = lines @
             [FailedToGenerate
                (NoPostsReturned (case primary of Inl e \<Rightarrow> Some e | Inr _ \<Rightarrow> None)),
              ContinuingWithoutSitemap, CreatedEmptySitemap]"
proof -
  from gather_posts_empty [OF assms(2,3)]
  obtain via lines where g: "gather_posts cfg rt primary (feed src) =
      ([], (case primary of Inl e \<Rightarrow> Some e | Inr _ \<Rightarrow> None), via, lines)"
    by blast
  obtain warned cats where c: "fetchCategories (categories_api src) = (warned, cats)"
    by (cases "fetchCategories (categories_api src)") auto
  have b: "build_sitemap cfg rt cats []
             (case primary of Inl e \<Rightarrow> Some e | Inr _ \<Rightarrow> None) =
           Inl (NoPostsReturned (case primary of Inl e \<Rightarrow> Some e | Inr _ \<Rightarrow> None))"
    by (simp add: build_sitemap_def)
  note s = save_emptySitemap_Inr [OF assms(4,5)]
  define out where "out =
     \<lparr>written = \<lparr>dist_exists = True, sitemap_blog_xml = Some emptySitemap\<rparr>,
      returned = False,
      console = (lines @ warned) @
        [FailedToGenerate
           (NoPostsReturned (case primary of Inl e \<Rightarrow> Some e | Inr _ \<Rightarrow> None)),
         ContinuingWithoutSitemap, CreatedEmptySitemap]\<rparr>"
  have w: "writeBlogSitemap cfg rt src d fs = Some (Inr out)"
    using assms(1) g c b s by (simp add: writeBlogSitemap_def out_def)
  have "returned out = False" "dist_exists (written out)"
    "sitemap_blog_xml (written out) = Some emptySitemap"
    "console out = (lines @ warned) @
        [FailedToGenerate
           (NoPostsReturned (case primary of Inl e \<Rightarrow> Some e | Inr _ \<Rightarrow> None)),
         ContinuingWithoutSitemap, CreatedEmptySitemap]"
    by (simp_all add: out_def)
  with w emptySitemap_text emptySitemap_well_formed show ?thesis
    by blast
qed

text \<open>
  A run in which the API answers 403 and neither the feed nor the categories can be
  reached, on a file system that refuses nothing.
\<close>

theorem empty_sitemap_when_no_posts_witness:
  "fetchAllPosts example_config utc_runtime (posts_api blocked_sources) =
     Some (Inl (WordPressAPI 403 ''Forbidden'' ''blocked'')) \<and>
   snd (fetchPostsFromRss example_config utc_runtime (feed blocked_sources)) = [] \<and>
   mkdir_fails working_disk = False \<and>
   write_fails working_disk emptySitemap = False \<and>
   writeBlogSitemap example_config utc_runtime blocked_sources working_disk no_files =
     Some (Inr \<lparr>written = \<lparr>dist_exists = True, sitemap_blog_xml = Some
             (''<?xml version='' @ [CHR 0x22] @ ''1.0'' @ [CHR 0x22] @ '' encoding='' @
               [CHR 0x22] @ ''UTF-8'' @ [CHR 0x22] @ ''?>'' @ [CHR 0x0A] @
              ''<urlset xmlns='' @ [CHR 0x22] @ ''http://www.sitemaps.org/schemas/sitemap/0.9'' @
               [CHR 0x22] @ ''>'' @ [CHR 0x0A] @
              ''</urlset>'')\<rparr>,
           returned = False,
           console =
             [FetchingPosts,
              ApiFetchFailed (WordPressAPI 403 ''Forbidden'' ''blocked''),
              TryingRssFallback,
              RssFallbackFailed (FetchRejected ''unreachable''),
              CategoriesFetchFailed (FetchRejected ''unreachable''),
              FailedToGenerate (NoPostsReturned (Some (WordPressAPI 403 ''Forbidden'' ''blocked''))),
              ContinuingWithoutSitemap, CreatedEmptySitemap]\<rparr>)"
proof -
  have h1: "fetchAllPosts example_config utc_runtime (posts_api blocked_sources) =
     Some (Inl (WordPressAPI 403 ''Forbidden'' ''blocked''))"
    by code_simp
  have h2: "snd (fetchPostsFromRss example_config utc_runtime (feed blocked_sources)) = []"
    by code_simp
  have h3: "mkdir_fails working_disk = False" "write_fails working_disk emptySitemap = False"
    by (simp_all add: working_disk_def)
  have v: "writeBlogSitemap example_config utc_runtime blocked_sources working_disk no_files =
     Some (Inr \<lparr>written = \<lparr>dist_exists = True, sitemap_blog_xml = Some
             (''<?xml version='' @ [CHR 0x22] @ ''1.0'' @ [CHR 0x22] @ '' encoding='' @
               [CHR 0x22] @ ''UTF-8'' @ [CHR 0x22] @ ''?>'' @ [CHR 0x0A] @
              ''<urlset xmlns='' @ [CHR 0x22] @ ''http://www.sitemaps.org/schemas/sitemap/0.9'' @
               [CHR 0x22] @ ''>'' @ [CHR 0x0A] @
              ''</urlset>'')\<rparr>,
           returned = False,
           console =
             [FetchingPosts,
              ApiFetchFailed (WordPressAPI 403 ''Forbidden'' ''blocked''),
              TryingRssFallback,
              RssFallbackFailed (FetchRejected ''unreachable''),
              CategoriesFetchFailed (FetchRejected ''unreachable''),
              FailedToGenerate (NoPostsReturned (Some (WordPressAPI 403 ''Forbidden'' ''blocked''))),
              ContinuingWithoutSitemap, CreatedEmptySitemap]\<rparr>)"
    by code_simp
  from empty_sitemap_when_no_posts [where d = working_disk and fs = no_files, OF h1 _ h2] h3
  have "\<exists>out. writeBlogSitemap example_config utc_runtime blocked_sources working_disk no_files =
          Some (Inr out) \<and> returned out = False"
    by auto
  with h1 h2 h3 v show ?thesis
    by simp
qed

subsection \<open>Splitting a link\<close>

text \<open>
  For a separator of one character, \<open>split_js\<close> is characterised by two facts: no
  piece contains the separator, and the pieces joined by the separator give the text
  back.
\<close>

lemma split1_Cons:
  "split_js [c] (x # xs) =
     (if x = c then [] # split_js [c] xs
      else (case split_js [c] xs of [] \<Rightarrow> [[x]] | piece # pieces \<Rightarrow> (x # piece) # pieces))"
  by simp

lemma split1_not_Nil: "split_js [c] s \<noteq> []"
  by (induction s) (auto simp: split1_Cons split: list.splits)

lemma split1_no_separator: "piece \<in> set (split_js [c] s) \<Longrightarrow> c \<notin> set piece"
proof (induction s arbitrary: piece)
  case Nil
  then show ?case by simp
next
  case (Cons x xs)
  then show ?case
    by (auto simp: split1_Cons split: if_splits list.splits)
qed

lemma join_Cons_head: "join sep ((x # piece) # pieces) = x # join sep (piece # pieces)"
  by (cases pieces) simp_all

lemma join_Nil_head: "pieces \<noteq> [] \<Longrightarrow> join sep ([] # pieces) = sep @ join sep pieces"
  by (cases pieces) simp_all

lemma split1_join: "join [c] (split_js [c] s) = s"
proof (induction s)
  case Nil
  then show ?case by simp
next
  case (Cons x xs)
  show ?case
  proof (cases "x = c")
    case True
    then show ?thesis
      using Cons.IH split1_not_Nil [of c xs] by (simp add: split1_Cons join_Nil_head)
  next
    case False
    obtain piece pieces where p: "split_js [c] xs = piece # pieces"
      using split1_not_Nil [of c xs] by (cases "split_js [c] xs") auto
    with False Cons.IH show ?thesis
      by (simp add: split1_Cons join_Cons_head)
  qed
qed

lemma split1_has_piece:
  "(\<exists>piece\<in>set (split_js [c] s). piece \<noteq> []) \<longleftrightarrow> (\<exists>x\<in>set s. x \<noteq> c)"
proof (induction s)
  case Nil
  then show ?case by simp
next
  case (Cons x xs)
  show ?case
  proof (cases "x = c")
    case True
    then show ?thesis using Cons.IH by (simp add: split1_Cons)
  next
    case False
    obtain piece pieces where p: "split_js [c] xs = piece # pieces"
      using split1_not_Nil [of c xs] by (cases "split_js [c] xs") auto
    with False show ?thesis
      by (auto simp: split1_Cons)
  qed
qed

lemma match_here_not_Nil: "match_here opening closing s = Some captured \<Longrightarrow> captured \<noteq> []"
  by (auto simp: match_here_def Let_def split: if_splits)

lemma match_first_not_Nil: "match_first opening closing s = Some captured \<Longrightarrow> captured \<noteq> []"
proof (induction s)
  case Nil
  then show ?case using match_here_not_Nil by simp
next
  case (Cons x xs)
  show ?case
  proof (cases "match_here opening closing (x # xs)")
    case None
    with Cons show ?thesis by simp
  next
    case (Some cap)
    with Cons.prems have "cap = captured" by simp
    with match_here_not_Nil [OF Some] show ?thesis by simp
  qed
qed

lemma rss_slug_Some:
  "rss_slug (Some l) =
     (if filter (\<lambda>s. s \<noteq> []) (split_js ''/'' l) = [] then []
      else last (filter (\<lambda>s. s \<noteq> []) (split_js ''/'' l)))"
  by (simp add: rss_slug_def pop_def filter_Boolean_def js_or_def)

lemma last_filter_not_Nil:
  "filter (\<lambda>s. s \<noteq> []) xs \<noteq> [] \<Longrightarrow> last (filter (\<lambda>s. s \<noteq> []) xs) \<noteq> []"
  using last_in_set [of "filter (\<lambda>s. s \<noteq> []) xs"] by auto

lemma nth_filter_not_Nil:
  "i < length (filter (\<lambda>s. s \<noteq> []) xs) \<Longrightarrow> filter (\<lambda>s. s \<noteq> []) xs ! i \<noteq> []"
  using nth_mem [of i "filter (\<lambda>s. s \<noteq> []) xs"] by auto

lemma rss_categorySlug_Some:
  "rss_categorySlug (Some l) =
     (if 2 \<le> length (filter (\<lambda>s. s \<noteq> []) (split_js ''/'' l))
      then filter (\<lambda>s. s \<noteq> []) (split_js ''/'' l) !
             (length (filter (\<lambda>s. s \<noteq> []) (split_js ''/'' l)) - 2)
      else ''blog'')"
proof (cases "2 \<le> length (filter (\<lambda>s. s \<noteq> []) (split_js ''/'' l))")
  case True
  then have i: "length (filter (\<lambda>s. s \<noteq> []) (split_js ''/'' l)) - 2
                  < length (filter (\<lambda>s. s \<noteq> []) (split_js ''/'' l))"
    by simp
  have n: "nat (int (length (filter (\<lambda>s. s \<noteq> []) (split_js ''/'' l))) - 2) =
           length (filter (\<lambda>s. s \<noteq> []) (split_js ''/'' l)) - 2"
    by simp
  show ?thesis
    using True nth_filter_not_Nil [OF i]
    by (simp add: rss_categorySlug_def filter_Boolean_def at_index_def Let_def js_or_def n)
next
  case False
  then show ?thesis
    by (simp add: rss_categorySlug_def filter_Boolean_def at_index_def Let_def)
qed

lemma rss_slug_not_Nil_iff:
  "rss_slug (Some l) \<noteq> [] \<longleftrightarrow> (\<exists>x\<in>set l. x \<noteq> CHR ''/'')"
proof -
  have "rss_slug (Some l) \<noteq> [] \<longleftrightarrow> filter (\<lambda>s. s \<noteq> []) (split_js ''/'' l) \<noteq> []"
    using last_filter_not_Nil [of "split_js ''/'' l"] by (simp add: rss_slug_Some)
  also have "\<dots> \<longleftrightarrow> (\<exists>piece\<in>set (split_js ''/'' l). piece \<noteq> [])"
    by (simp add: filter_empty_conv)
  also have "\<dots> \<longleftrightarrow> (\<exists>x\<in>set l. x \<noteq> CHR ''/'')"
    by (rule split1_has_piece)
  finally show ?thesis .
qed

lemma rss_post_Inr:
  "rss_post rt item = Inr p \<Longrightarrow>
     slug p = rss_slug (linkMatch item) \<and> link p = linkMatch item \<and> modified p = None \<and>
     embedded p = Some [[\<lparr>term_slug = rss_categorySlug (linkMatch item), taxonomy = ''category''\<rparr>]] \<and>
     date p = (case dateMatch item of Some d \<Rightarrow> date_iso rt d | None \<Rightarrow> Some (now_iso rt)) \<and>
     date p \<noteq> None"
  by (auto simp: rss_post_def Let_def split: option.splits)

subsection \<open>The RSS fallback\<close>

text \<open>
  Claim C7. \<open>fetchPostsFromRss\<close> always returns a list and never an error. When the
  request is rejected, when the status is not a success, when an item makes the parsing
  throw, and when no item with slug and link is left, the error is logged as one warning
  and the result is the empty list; whenever a warning is logged the list is empty.
\<close>

theorem rss_never_raises:
  "fetchPostsFromRss cfg rt (Inl e) = ([RssFallbackFailed e], []) \<and>
   (\<not> ok r1 \<longrightarrow>
      fetchPostsFromRss cfg rt (Inr r1) =
        ([RssFallbackFailed (RssReturned (status r1) (statusText r1))], [])) \<and>
   (ok r2 \<and> map_throwing (rss_post rt) (rss_items (body r2)) = Inl e2 \<longrightarrow>
      fetchPostsFromRss cfg rt (Inr r2) = ([RssFallbackFailed e2], [])) \<and>
   (ok r3 \<and> map_throwing (rss_post rt) (rss_items (body r3)) = Inr parsed \<and>
      filter has_slug_and_link parsed = [] \<longrightarrow>
      fetchPostsFromRss cfg rt (Inr r3) = ([RssFallbackFailed RssNoPosts], [])) \<and>
   (rss_try cfg rt fetched = Inl e4 \<longrightarrow>
      fetchPostsFromRss cfg rt fetched = ([RssFallbackFailed e4], [])) \<and>
   (\<exists>warned ps. fetchPostsFromRss cfg rt fetched = (warned, ps) \<and>
      (warned = [] \<or> (ps = [] \<and> (\<exists>e'. warned = [RssFallbackFailed e']))))"
proof (intro conjI impI)
  show "\<exists>warned ps. fetchPostsFromRss cfg rt fetched = (warned, ps) \<and>
      (warned = [] \<or> (ps = [] \<and> (\<exists>e'. warned = [RssFallbackFailed e'])))"
    by (cases "rss_try cfg rt fetched") (simp_all add: fetchPostsFromRss_def)
qed (auto simp: fetchPostsFromRss_def rss_try_def)

text \<open>
  A feed that answers 503, a feed with an item whose publication date is no date, a
  document without items, and a feed that cannot be reached.
\<close>

theorem rss_never_raises_witness:
  "\<not> ok unavailable_feed \<and>
   fetchPostsFromRss example_config utc_runtime (Inr unavailable_feed) =
     ([RssFallbackFailed (RssReturned 503 ''Service Unavailable'')], []) \<and>
   ok misdated_feed \<and>
   map_throwing (rss_post utc_runtime) (rss_items (body misdated_feed)) = Inl InvalidTimeValue \<and>
   fetchPostsFromRss example_config utc_runtime (Inr misdated_feed) =
     ([RssFallbackFailed InvalidTimeValue], []) \<and>
   ok itemless_feed \<and>
   map_throwing (rss_post utc_runtime) (rss_items (body itemless_feed)) = Inr [] \<and>
   fetchPostsFromRss example_config utc_runtime (Inr itemless_feed) =
     ([RssFallbackFailed RssNoPosts], []) \<and>
   rss_try example_config utc_runtime unreachable_feed = Inl (FetchRejected ''unreachable'') \<and>
   fetchPostsFromRss example_config utc_runtime unreachable_feed =
     ([RssFallbackFailed (FetchRejected ''unreachable'')], [])"
proof -
  have h1: "\<not> ok unavailable_feed"
    by code_simp
  have s1: "status unavailable_feed = 503" "statusText unavailable_feed = ''Service Unavailable''"
    by (simp_all add: unavailable_feed_def feed_response_def)
  have h2: "ok misdated_feed \<and>
      map_throwing (rss_post utc_runtime) (rss_items (body misdated_feed)) = Inl InvalidTimeValue"
    by code_simp
  have h3: "ok itemless_feed \<and>
      map_throwing (rss_post utc_runtime) (rss_items (body itemless_feed)) = Inr [] \<and>
      filter has_slug_and_link [] = []"
    by code_simp
  have h4: "rss_try example_config utc_runtime unreachable_feed = Inl (FetchRejected ''unreachable'')"
    by code_simp
  note t = rss_never_raises [of example_config utc_runtime _ unavailable_feed misdated_feed
      InvalidTimeValue itemless_feed "[]" unreachable_feed "FetchRejected ''unreachable''"]
  from t h1 s1 have c1: "fetchPostsFromRss example_config utc_runtime (Inr unavailable_feed) =
     ([RssFallbackFailed (RssReturned 503 ''Service Unavailable'')], [])"
    by simp
  from t h2 have c2: "fetchPostsFromRss example_config utc_runtime (Inr misdated_feed) =
     ([RssFallbackFailed InvalidTimeValue], [])"
    by blast
  from t h3 have c3: "fetchPostsFromRss example_config utc_runtime (Inr itemless_feed) =
     ([RssFallbackFailed RssNoPosts], [])"
    by blast
  from t h4 have c4: "fetchPostsFromRss example_config utc_runtime unreachable_feed =
     ([RssFallbackFailed (FetchRejected ''unreachable'')], [])"
    by blast
  from h1 c1 h2 c2 h3 c3 h4 c4 show ?thesis
    by blast
qed

text \<open>
  How the script cuts a link: the whole text of the link is split at every \<open>/\<close> and
  the empty pieces are dropped. The slug is the last piece that remains and the category
  the piece before it; \<open>blog\<close> is the category only when fewer than two pieces remain.
\<close>

lemma rss_post_cuts_link:
  "(rss_post rt item = Inr p \<and> linkMatch item = Some l \<longrightarrow>
      link p = Some l \<and>
      join ''/'' (split_js ''/'' l) = l \<and>
      (\<forall>piece\<in>set (split_js ''/'' l). CHR ''/'' \<notin> set piece) \<and>
      slug p = (if segments l = [] then [] else last (segments l)) \<and>
      embedded p =
        Some [[\<lparr>term_slug = (if 2 \<le> length (segments l)
                              then segments l ! (length (segments l) - 2) else ''blog''),
                 taxonomy = ''category''\<rparr>]] \<and>
      post_categorySlug p =
        (if 2 \<le> length (segments l) then segments l ! (length (segments l) - 2) else ''blog'')) \<and>
   (rss_post rt item' = Inr p' \<and> linkMatch item' = None \<longrightarrow>
      slug p' = [] \<and> post_categorySlug p' = ''blog'')"
proof (intro conjI impI)
  assume a: "rss_post rt item = Inr p \<and> linkMatch item = Some l"
  then have r: "slug p = rss_slug (Some l)" "link p = Some l"
    "embedded p = Some [[\<lparr>term_slug = rss_categorySlug (Some l), taxonomy = ''category''\<rparr>]]"
    using rss_post_Inr [of rt item p] by simp_all
  show "link p = Some l"
    by (rule r(2))
  show "join ''/'' (split_js ''/'' l) = l"
    by (rule split1_join)
  show "\<forall>piece\<in>set (split_js ''/'' l). CHR ''/'' \<notin> set piece"
    using split1_no_separator by blast
  show "slug p = (if segments l = [] then [] else last (segments l))"
    using r(1) by (simp add: rss_slug_Some segments_def)
  show e: "embedded p =
        Some [[\<lparr>term_slug = (if 2 \<le> length (segments l)
                              then segments l ! (length (segments l) - 2) else ''blog''),
                 taxonomy = ''category''\<rparr>]]"
    using r(3) by (simp add: rss_categorySlug_Some segments_def)
  have "2 \<le> length (segments l) \<Longrightarrow> segments l ! (length (segments l) - 2) \<noteq> []"
    using nth_filter_not_Nil [of "length (segments l) - 2" "split_js ''/'' l"]
    by (simp add: segments_def)
  then show "post_categorySlug p =
        (if 2 \<le> length (segments l) then segments l ! (length (segments l) - 2) else ''blog'')"
    using e by (simp add: post_categorySlug_def first_term_def js_or_def)
next
  assume a: "rss_post rt item' = Inr p' \<and> linkMatch item' = None"
  then have r: "slug p' = rss_slug None"
    "embedded p' = Some [[\<lparr>term_slug = rss_categorySlug None, taxonomy = ''category''\<rparr>]]"
    using rss_post_Inr [of rt item' p'] by simp_all
  show "slug p' = []"
    using r(1) by (simp add: rss_slug_def)
  show "post_categorySlug p' = ''blog''"
    using r(2) by (simp add: post_categorySlug_def first_term_def js_or_def rss_categorySlug_def)
qed

text \<open>
  Claim C8 does not hold of the code. The link \<open>https://example.com/hello-world/\<close>
  has the path \<open>/hello-world/\<close> with a single segment, so there is no segment before
  the last one and the category is to be \<open>blog\<close>, as it is for a post of the API
  without category. The script splits the whole text of the link, where the scheme and
  the host are pieces as well, and takes the host for the category: the entry of the post
  gets the location \<open>https://example.com/example.com/hello-world\<close>.
\<close>

theorem host_taken_for_category:
  "linkMatch short_item = Some ''https://example.com/hello-world/'' \<and>
   url_path_segments ''https://example.com/hello-world/'' = [''hello-world''] \<and>
   rss_post utc_runtime short_item =
     Inr \<lparr>slug = ''hello-world'', link = Some ''https://example.com/hello-world/'',
          date = Some ''2026-11-03T09:30:00.000Z'', modified = None,
          embedded = Some [[\<lparr>term_slug = ''example.com'', taxonomy = ''category''\<rparr>]]\<rparr> \<and>
   post_url example_config utc_runtime
     \<lparr>slug = ''hello-world'', link = Some ''https://example.com/hello-world/'',
      date = Some ''2026-11-03T09:30:00.000Z'', modified = None,
      embedded = Some [[\<lparr>term_slug = ''example.com'', taxonomy = ''category''\<rparr>]]\<rparr> =
     Inr (''  <url>'' @ [CHR 0x0A] @
          ''    <loc>https://example.com/example.com/hello-world</loc>'' @ [CHR 0x0A] @
          ''    <lastmod>2026-11-03</lastmod>'' @ [CHR 0x0A] @
          ''    <changefreq>monthly</changefreq>'' @ [CHR 0x0A] @
          ''    <priority>0.6</priority>'' @ [CHR 0x0A] @
          ''  </url>'')"
  by code_simp

text \<open>
  Claim C9 as stated fails. The feed has two items; from the second one the link \<open>/\<close>
  is recovered, but no slug, and the item is not kept: the result holds the first post
  only, without any warning.
\<close>

theorem root_link_is_discarded:
  "rss_items (body hello_root_feed) = [hello_item, root_item @ ''</channel></rss>''] \<and>
   linkMatch (root_item @ ''</channel></rss>'') = Some ''/'' \<and>
   fetchPostsFromRss example_config utc_runtime (Inr hello_root_feed) = ([], [hello_from_rss])"
  by code_simp

lemma has_slug_and_link_rss:
  assumes "rss_post rt item = Inr p"
  shows "has_slug_and_link p \<longleftrightarrow> slug p \<noteq> [] \<and> link p \<noteq> None"
    and "slug p \<noteq> [] \<and> link p \<noteq> None \<longleftrightarrow>
           (\<exists>l. linkMatch item = Some l \<and> (\<exists>x\<in>set l. x \<noteq> CHR ''/''))"
    and "slug p \<noteq> [] \<longrightarrow> link p \<noteq> None"
proof -
  from rss_post_Inr [OF assms]
  have r: "slug p = rss_slug (linkMatch item)" "link p = linkMatch item"
    by simp_all
  show "has_slug_and_link p \<longleftrightarrow> slug p \<noteq> [] \<and> link p \<noteq> None"
    using r(2) match_first_not_Nil [of "''<link>''" "''</link>''" item]
    by (cases "linkMatch item") (auto simp: has_slug_and_link_def linkMatch_def)
  show "slug p \<noteq> [] \<and> link p \<noteq> None \<longleftrightarrow>
           (\<exists>l. linkMatch item = Some l \<and> (\<exists>x\<in>set l. x \<noteq> CHR ''/''))"
    using r rss_slug_not_Nil_iff by (cases "linkMatch item") (auto simp: rss_slug_def)
  show "slug p \<noteq> [] \<longrightarrow> link p \<noteq> None"
    using r by (cases "linkMatch item") (auto simp: rss_slug_def)
qed

lemma list_all2_right_member:
  "list_all2 P xs ys \<Longrightarrow> y \<in> set ys \<Longrightarrow> \<exists>x\<in>set xs. P x y"
  by (induction rule: list_all2_induct) auto

lemma filter_has_slug_and_link:
  assumes "map_throwing (rss_post rt) items = Inr parsed"
  shows "filter has_slug_and_link parsed = filter (\<lambda>p. slug p \<noteq> [] \<and> link p \<noteq> None) parsed"
proof (rule filter_cong [OF refl])
  fix p assume m: "p \<in> set parsed"
  have "list_all2 (\<lambda>item p. rss_post rt item = Inr p) items parsed"
    using assms by (simp add: map_throwing_Inr)
  from list_all2_right_member [OF this m] obtain item where "rss_post rt item = Inr p"
    by blast
  then show "has_slug_and_link p = (slug p \<noteq> [] \<and> link p \<noteq> None)"
    by (rule has_slug_and_link_rss(1))
qed

text \<open>
  Claim C9, amended. \<open>fetchPostsFromRss\<close> discards every item that lacks a slug or
  lacks a link, not only the items that lack both: a post it returns has a slug and a
  link. When the feed is answered with success and no item makes the parsing throw, the
  result is the list of the items from which both a slug and a link were recovered, in
  the order of the feed and cut to the first \<open>BLOG_LIMIT\<close> of them (rounded down);
  when an item makes the parsing throw, the result is empty. The items with a slug and a
  link are the items whose link has a character other than \<open>/\<close>; a slug is never
  recovered without a link.
\<close>

theorem rss_keeps_slug_and_link:
  "(ok r \<and> map_throwing (rss_post rt) (rss_items (body r)) = Inr parsed \<longrightarrow>
      snd (fetchPostsFromRss cfg rt (Inr r)) =
        take (nat \<lfloor>BLOG_LIMIT cfg\<rfloor>)
          (filter (\<lambda>p. slug p \<noteq> [] \<and> link p \<noteq> None) parsed)) \<and>
   (ok r' \<and> map_throwing (rss_post rt) (rss_items (body r')) = Inl e \<longrightarrow>
      snd (fetchPostsFromRss cfg rt (Inr r')) = []) \<and>
   (returned_post \<in> set (snd (fetchPostsFromRss cfg rt fetched)) \<longrightarrow>
      slug returned_post \<noteq> [] \<and> link returned_post \<noteq> None) \<and>
   (rss_post rt item = Inr p \<longrightarrow>
      ((slug p \<noteq> [] \<and> link p \<noteq> None) \<longleftrightarrow>
         (\<exists>l. linkMatch item = Some l \<and> (\<exists>x\<in>set l. x \<noteq> CHR ''/''))) \<and>
      (slug p \<noteq> [] \<longrightarrow> link p \<noteq> None))"
proof (intro conjI impI)
  assume a: "ok r \<and> map_throwing (rss_post rt) (rss_items (body r)) = Inr parsed"
  then have f: "filter has_slug_and_link parsed =
                  filter (\<lambda>p. slug p \<noteq> [] \<and> link p \<noteq> None) parsed"
    using filter_has_slug_and_link by blast
  show "snd (fetchPostsFromRss cfg rt (Inr r)) =
        take (nat \<lfloor>BLOG_LIMIT cfg\<rfloor>)
          (filter (\<lambda>p. slug p \<noteq> [] \<and> link p \<noteq> None) parsed)"
  proof (cases "filter has_slug_and_link parsed = []")
    case True
    then show ?thesis
      using a f by (simp add: fetchPostsFromRss_def rss_try_def)
  next
    case False
    then show ?thesis
      using a f by (simp add: fetchPostsFromRss_def rss_try_def slice_limit_def)
  qed
next
  assume "ok r' \<and> map_throwing (rss_post rt) (rss_items (body r')) = Inl e"
  then show "snd (fetchPostsFromRss cfg rt (Inr r')) = []"
    by (simp add: fetchPostsFromRss_def rss_try_def)
next
  assume m: "returned_post \<in> set (snd (fetchPostsFromRss cfg rt fetched))"
  obtain warned ps where f: "fetchPostsFromRss cfg rt fetched = (warned, ps)"
    by (cases "fetchPostsFromRss cfg rt fetched") auto
  with m have m': "returned_post \<in> set ps"
    by simp
  from fetchPostsFromRss_cases [OF f] m' have "rss_try cfg rt fetched = Inr ps"
    by auto
  from rss_try_Inr [OF this] obtain parsed' where
    "ps = slice_limit cfg (filter has_slug_and_link parsed')"
    by blast
  with m' have "has_slug_and_link returned_post"
    by (auto simp: slice_limit_def dest: in_set_takeD)
  then show "slug returned_post \<noteq> []" and "link returned_post \<noteq> None"
    by (auto simp: has_slug_and_link_def split: option.splits)
next
  assume "rss_post rt item = Inr p"
  then show "(slug p \<noteq> [] \<and> link p \<noteq> None) \<longleftrightarrow>
         (\<exists>l. linkMatch item = Some l \<and> (\<exists>x\<in>set l. x \<noteq> CHR ''/''))"
    by (rule has_slug_and_link_rss(2))
next
  assume "rss_post rt item = Inr p" and "slug p \<noteq> []"
  then show "link p \<noteq> None"
    using has_slug_and_link_rss(3) by blast
qed

text \<open>
  The feed with two items and the limit of two posts: the post of the example is kept,
  the item whose link is \<open>/\<close> has a link but no slug and is discarded. With a limit of
  one post a feed that holds the post of the example twice yields it once. A feed with
  an item whose publication date is no date yields nothing.
\<close>

theorem rss_keeps_slug_and_link_witness:
  "ok hello_root_feed \<and>
   map_throwing (rss_post utc_runtime) (rss_items (body hello_root_feed)) =
     Inr [hello_from_rss, root_from_rss] \<and>
   snd (fetchPostsFromRss example_config utc_runtime (Inr hello_root_feed)) = [hello_from_rss] \<and>
   ok misdated_feed \<and>
   map_throwing (rss_post utc_runtime) (rss_items (body misdated_feed)) = Inl InvalidTimeValue \<and>
   snd (fetchPostsFromRss example_config utc_runtime (Inr misdated_feed)) = [] \<and>
   ok hello_twice_feed \<and>
   map_throwing (rss_post utc_runtime) (rss_items (body hello_twice_feed)) =
     Inr [hello_from_rss, hello_from_rss] \<and>
   snd (fetchPostsFromRss one_post_config utc_runtime (Inr hello_twice_feed)) = [hello_from_rss] \<and>
   hello_from_rss \<in> set (snd (fetchPostsFromRss example_config utc_runtime (Inr hello_root_feed))) \<and>
   rss_post utc_runtime root_item = Inr root_from_rss \<and>
   linkMatch root_item = Some ''/'' \<and>
   slug root_from_rss = [] \<and>
   rss_post utc_runtime hello_item = Inr hello_from_rss \<and>
   slug hello_from_rss \<noteq> [] \<and> link hello_from_rss \<noteq> None"
proof -
  have h1: "ok hello_root_feed \<and>
      map_throwing (rss_post utc_runtime) (rss_items (body hello_root_feed)) =
        Inr [hello_from_rss, root_from_rss]"
    by code_simp
  have h2: "rss_post utc_runtime root_item = Inr root_from_rss"
    by code_simp
  have h3: "rss_post utc_runtime hello_item = Inr hello_from_rss"
    by code_simp
  have h4: "ok misdated_feed \<and>
      map_throwing (rss_post utc_runtime) (rss_items (body misdated_feed)) = Inl InvalidTimeValue"
    by code_simp
  have h5: "hello_from_rss \<in> set (snd (fetchPostsFromRss example_config utc_runtime (Inr hello_root_feed)))"
    by code_simp
  have h6: "ok hello_twice_feed \<and>
      map_throwing (rss_post utc_runtime) (rss_items (body hello_twice_feed)) =
        Inr [hello_from_rss, hello_from_rss]"
    by code_simp
  have v6: "take (nat \<lfloor>BLOG_LIMIT one_post_config\<rfloor>)
             (filter (\<lambda>p. slug p \<noteq> [] \<and> link p \<noteq> None) [hello_from_rss, hello_from_rss]) =
           [hello_from_rss]"
    by code_simp
  have l: "linkMatch root_item = Some ''/''"
    by code_simp
  have v: "take (nat \<lfloor>BLOG_LIMIT example_config\<rfloor>)
             (filter (\<lambda>p. slug p \<noteq> [] \<and> link p \<noteq> None) [hello_from_rss, root_from_rss]) =
           [hello_from_rss]"
    by code_simp
  note limited = rss_keeps_slug_and_link [of hello_twice_feed utc_runtime
      "[hello_from_rss, hello_from_rss]" one_post_config, THEN conjunct1]
  note t = rss_keeps_slug_and_link [of hello_root_feed utc_runtime "[hello_from_rss, root_from_rss]"
      example_config misdated_feed InvalidTimeValue hello_from_rss "Inr hello_root_feed"]
  have c6: "snd (fetchPostsFromRss one_post_config utc_runtime (Inr hello_twice_feed)) = [hello_from_rss]"
    by (rule trans [OF mp [OF limited h6] v6])
  have c1: "snd (fetchPostsFromRss example_config utc_runtime (Inr hello_root_feed)) = [hello_from_rss]"
    by (rule trans [OF mp [OF t [THEN conjunct1] h1] v])
  have c2: "snd (fetchPostsFromRss example_config utc_runtime (Inr misdated_feed)) = []"
    by (rule mp [OF t [THEN conjunct2, THEN conjunct1] h4])
  have c3: "slug hello_from_rss \<noteq> [] \<and> link hello_from_rss \<noteq> None"
    by (rule mp [OF t [THEN conjunct2, THEN conjunct2, THEN conjunct1] h5])
  note at_root = mp [OF t [of root_item root_from_rss, THEN conjunct2, THEN conjunct2,
      THEN conjunct2] h2, THEN conjunct1]
  have "\<not> (\<exists>l. linkMatch root_item = Some l \<and> (\<exists>x\<in>set l. x \<noteq> CHR ''/''))"
    by (simp add: l)
  with at_root have "\<not> (slug root_from_rss \<noteq> [] \<and> link root_from_rss \<noteq> None)"
    by blast
  moreover have "link root_from_rss \<noteq> None"
    by (simp add: root_from_rss_def)
  ultimately have c4: "slug root_from_rss = []"
    by blast
  from h1 c1 h4 c2 h6 c6 h5 h2 l c4 h3 c3 show ?thesis
    by (intro conjI) simp_all
qed

lemma rss_posts_from_items:
  assumes "p \<in> set (snd (fetchPostsFromRss cfg rt fetched))"
  shows "\<exists>item. rss_post rt item = Inr p"
proof -
  obtain warned ps where f: "fetchPostsFromRss cfg rt fetched = (warned, ps)"
    by (cases "fetchPostsFromRss cfg rt fetched") auto
  with assms have m: "p \<in> set ps"
    by simp
  from fetchPostsFromRss_cases [OF f] m have "rss_try cfg rt fetched = Inr ps"
    by auto
  from rss_try_Inr [OF this] obtain r :: "unit response" and parsed
    where l: "map_throwing (rss_post rt) (rss_items (body r)) = Inr parsed"
      and s: "ps = slice_limit cfg (filter has_slug_and_link parsed)"
    by blast
  from m s have m': "p \<in> set parsed"
    by (auto simp: slice_limit_def dest: in_set_takeD)
  have "list_all2 (\<lambda>item p. rss_post rt item = Inr p) (rss_items (body r)) parsed"
    using l by (simp add: map_throwing_Inr)
  from list_all2_right_member [OF this m'] show ?thesis
    by blast
qed

text \<open>
  Claim C10. A post returned by \<open>fetchPostsFromRss\<close> has no field \<open>modified\<close>; the
  publication date of its item is stored in the field \<open>date\<close>. The renderer reads
  \<open>modified\<close> only, so in every run the entry of such a post gets the date of that run
  as its \<open>lastmod\<close>, whatever the publication date is.
\<close>

theorem rss_lastmod_is_run_date:
  assumes "p \<in> set (snd (fetchPostsFromRss cfg rt fetched))"
  shows "modified p = None \<and>
         (\<exists>item. rss_post rt item = Inr p \<and>
            date p = (case dateMatch item of Some d \<Rightarrow> date_iso rt d | None \<Rightarrow> Some (now_iso rt))) \<and>
         date p \<noteq> None \<and>
         post_lastmod rt' p = Inr (date_part (now_iso rt')) \<and>
         post_url cfg' rt' p =
           Inr (url_block (BASE_URL cfg' @ ''/'' @ post_categorySlug p @ ''/'' @ slug p)
                  (date_part (now_iso rt')) ''monthly'' ''0.6'')"
proof -
  from rss_posts_from_items [OF assms] obtain item where i: "rss_post rt item = Inr p"
    by blast
  note a = rss_post_Inr [OF i]
  from a have m: "modified p = None"
    by blast
  from a have d: "date p = (case dateMatch item of Some d \<Rightarrow> date_iso rt d | None \<Rightarrow> Some (now_iso rt))"
    by blast
  from a have n: "date p \<noteq> None"
    by blast
  have "post_lastmod rt' p = Inr (date_part (now_iso rt'))"
    using m by (simp add: post_lastmod_def)
  then show ?thesis
    using i m d n by (auto simp: post_url_def)
qed

text \<open>
  The item of the example was published on 2024-01-15; its entry is dated 2026-11-03,
  the day of the run.
\<close>

theorem rss_lastmod_is_run_date_witness:
  "hello_from_rss \<in> set (snd (fetchPostsFromRss example_config utc_runtime (Inr hello_root_feed))) \<and>
   dateMatch hello_item = Some ''Mon, 15 Jan 2024 00:00:00 +0000'' \<and>
   date hello_from_rss = Some ''2024-01-15T00:00:00.000Z'' \<and>
   modified hello_from_rss = None \<and>
   post_url example_config utc_runtime hello_from_rss =
     Inr (url_block ''https://example.com/news/hello-world'' ''2026-11-03'' ''monthly'' ''0.6'')"
proof -
  have h: "hello_from_rss \<in> set (snd (fetchPostsFromRss example_config utc_runtime (Inr hello_root_feed)))"
    by code_simp
  have d: "dateMatch hello_item = Some ''Mon, 15 Jan 2024 00:00:00 +0000'' \<and>
           date hello_from_rss = Some ''2024-01-15T00:00:00.000Z''"
    by code_simp
  have v: "url_block (BASE_URL example_config @ ''/'' @ post_categorySlug hello_from_rss @ ''/'' @
               slug hello_from_rss) (date_part (now_iso utc_runtime)) ''monthly'' ''0.6'' =
           url_block ''https://example.com/news/hello-world'' ''2026-11-03'' ''monthly'' ''0.6''"
    by code_simp
  from rss_lastmod_is_run_date [OF h, of utc_runtime example_config] v d
  show ?thesis
    using h by simp
qed

end
